theory Spec2Isabelle
  imports Complex_Main "HOL-Library.Word"
begin

chapter \<open>The model\<close>

section \<open>Argument sets\<close>

text \<open>
  Nodes of the expression graph are referred to by their names, which are unique within a
  graph. A \<open>RooArgSet\<close> is an ordered, name-unique collection; it is modelled as the list
  of the names of its members, in insertion order.
\<close>

type_synonym RooArgSet = "string list"

definition add_arg :: "RooArgSet \<Rightarrow> string \<Rightarrow> RooArgSet" where
  \<comment> \<open>\<open>RooArgSet::add(arg)\<close>: an argument whose name is already present is not added again.\<close>
  "add_arg s a = (if a \<in> set s then s else s @ [a])"

definition add_all :: "RooArgSet \<Rightarrow> RooArgSet \<Rightarrow> RooArgSet" where
  \<comment> \<open>\<open>RooArgSet::add(list)\<close>: adds the members one by one.\<close>
  "add_all s xs = foldl add_arg s xs"

definition remove_arg :: "RooArgSet \<Rightarrow> string \<Rightarrow> RooArgSet" where
  "remove_arg s a = filter (\<lambda>x. x \<noteq> a) s"

definition remove_all :: "RooArgSet \<Rightarrow> RooArgSet \<Rightarrow> RooArgSet" where
  "remove_all s xs = filter (\<lambda>x. x \<notin> set xs) s"

definition overlaps :: "RooArgSet \<Rightarrow> RooArgSet \<Rightarrow> bool" where
  "overlaps a b = list_ex (\<lambda>x. x \<in> set b) a"

section \<open>Ranges of integration variables\<close>

text \<open>
  A binning (range) of a variable is either fixed or parameterized; a parameterized one has
  a lower and an upper bound function. Of a bound function the model keeps the names of the
  leaf nodes of its expression tree.
\<close>

record RooAbsBinning =
  isParameterized :: bool
  lowBoundFunc :: "string list"
  highBoundFunc :: "string list"

text \<open>
  What the graph knows of each variable: whether it is a real-valued lvalue
  (\<open>dynamic_cast<RooAbsRealLValue*>\<close> succeeds) and its binning for each range name
  (\<open>None\<close> is the null range name, the variable's full domain).
\<close>

record VarInfo =
  isRealLValue :: "string \<Rightarrow> bool"
  getBinning :: "string \<Rightarrow> string option \<Rightarrow> RooAbsBinning"

definition getObservables :: "string list \<Rightarrow> RooArgSet \<Rightarrow> RooArgSet" where
  \<comment> \<open>Modelled from the spec: \<open>RooAbsArg::getObservables\<close> is declared outside the
      files at hand; it yields the leaves of the bound function that are members of the
      given set ("its bound functions depend on ... variables still pending integration").\<close>
  "getObservables leaves depList = add_all [] (filter (\<lambda>l. l \<in> set depList) leaves)"

section \<open>The inner-most integration set\<close>

text \<open>
  One iteration of the loop of \<open>RooAbsReal::findInnerMostIntegration\<close> over the integrated
  observables. The accumulator holds \<open>obsWithFixedRange\<close>, \<open>obsWithParamRange\<close> and
  \<open>obsServingAsRangeParams\<close>.
\<close>

definition classifyObs ::
  "VarInfo \<Rightarrow> RooArgSet \<Rightarrow> string option \<Rightarrow> RooArgSet \<times> RooArgSet \<times> RooArgSet \<Rightarrow> string
     \<Rightarrow> RooArgSet \<times> RooArgSet \<times> RooArgSet" where
  "classifyObs env allObs rangeName acc aarg =
     (case acc of (obsWithFixedRange, obsWithParamRange, obsServingAsRangeParams) \<Rightarrow>
        if isRealLValue env aarg then
          (let binning = getBinning env aarg rangeName in
           if isParameterized binning then
             (let loBoundObs = getObservables (lowBoundFunc binning) allObs;
                  hiBoundObs = getObservables (highBoundFunc binning) allObs in
              if overlaps loBoundObs allObs \<or> overlaps hiBoundObs allObs then
                (remove_arg obsWithFixedRange aarg,
                 add_arg obsWithParamRange aarg,
                 add_all (add_all obsServingAsRangeParams loBoundObs) hiBoundObs)
              else acc)
           else acc)
        else acc)"

definition findInnerMostIntegration :: "VarInfo \<Rightarrow> RooArgSet \<Rightarrow> string option \<Rightarrow> RooArgSet" where
  "findInnerMostIntegration env allObs rangeName =
     (case foldl (classifyObs env allObs rangeName) (allObs, [], []) allObs of
        (obsWithFixedRange, obsWithParamRange, obsServingAsRangeParams) \<Rightarrow>
          (let obsWithFixedRangeNP = remove_all obsWithFixedRange obsServingAsRangeParams;
               obsWithParamRangeNP = remove_all obsWithParamRange obsServingAsRangeParams
           in add_all (add_all [] obsWithFixedRangeNP) obsWithParamRangeNP))"

text \<open>
  The vocabulary of the selection rule. A pending variable \<open>v\<close> has a range that depends on
  the pending set when it is a real lvalue with a parameterized binning one of whose bound
  functions has a leaf in the pending set; a variable \<open>w\<close> serves as a range parameter when
  it is such a leaf for some pending variable.
\<close>

definition boundLeaves :: "VarInfo \<Rightarrow> string option \<Rightarrow> string \<Rightarrow> string list" where
  "boundLeaves env rangeName v =
     lowBoundFunc (getBinning env v rangeName) @ highBoundFunc (getBinning env v rangeName)"

definition rangeDependsOn :: "VarInfo \<Rightarrow> RooArgSet \<Rightarrow> string option \<Rightarrow> string \<Rightarrow> bool" where
  "rangeDependsOn env allObs rangeName v =
     (isRealLValue env v \<and> isParameterized (getBinning env v rangeName)
      \<and> list_ex (\<lambda>l. l \<in> set allObs) (boundLeaves env rangeName v))"

definition servesAsRangeParam :: "VarInfo \<Rightarrow> RooArgSet \<Rightarrow> string option \<Rightarrow> string \<Rightarrow> bool" where
  "servesAsRangeParam env allObs rangeName w =
     list_ex (\<lambda>v. rangeDependsOn env allObs rangeName v \<and> w \<in> set (boundLeaves env rangeName v))
       allObs"

text \<open>
  The selection rule as the specification words it: (a) the fixed-range variables not used
  as the range parameter of any other pending variable, together with (b) the
  parameterized-range variables whose bound functions depend on none of the other pending
  variables and that are not used as the range parameter of any other pending variable.
\<close>

definition hasParamRange :: "VarInfo \<Rightarrow> string option \<Rightarrow> string \<Rightarrow> bool" where
  "hasParamRange env rangeName v =
     (isRealLValue env v \<and> isParameterized (getBinning env v rangeName))"

definition usedByOther :: "VarInfo \<Rightarrow> RooArgSet \<Rightarrow> string option \<Rightarrow> string \<Rightarrow> bool" where
  "usedByOther env allObs rangeName w =
     list_ex (\<lambda>v. v \<noteq> w \<and> hasParamRange env rangeName v \<and> w \<in> set (boundLeaves env rangeName v))
       allObs"

definition dependsOnOther :: "VarInfo \<Rightarrow> RooArgSet \<Rightarrow> string option \<Rightarrow> string \<Rightarrow> bool" where
  "dependsOnOther env allObs rangeName v =
     list_ex (\<lambda>u. u \<noteq> v \<and> u \<in> set (boundLeaves env rangeName v)) allObs"

definition spec_inner_subset :: "VarInfo \<Rightarrow> RooArgSet \<Rightarrow> string option \<Rightarrow> string set" where
  "spec_inner_subset env allObs rangeName =
     set (filter (\<lambda>w. \<not> hasParamRange env rangeName w \<and> \<not> usedByOther env allObs rangeName w) allObs)
     \<union> set (filter (\<lambda>w. hasParamRange env rangeName w \<and> \<not> dependsOnOther env allObs rangeName w
                        \<and> \<not> usedByOther env allObs rangeName w) allObs)"

text \<open>
  Two variables: \<open>y\<close> has a fixed range, the bounds of \<open>x\<close> are functions of \<open>y\<close>.
\<close>

definition paramOn :: "string \<Rightarrow> RooAbsBinning" where
  "paramOn p = \<lparr>isParameterized = True, lowBoundFunc = [p], highBoundFunc = [p]\<rparr>"

definition fixedBinning :: RooAbsBinning where
  "fixedBinning = \<lparr>isParameterized = False, lowBoundFunc = [], highBoundFunc = []\<rparr>"

definition env_x_of_y :: VarInfo where
  "env_x_of_y = \<lparr>isRealLValue = (\<lambda>v. True),
                 getBinning = (\<lambda>v r. if v = ''x'' then paramOn ''y'' else fixedBinning)\<rparr>"

text \<open>The circular case: the range of each of \<open>x\<close> and \<open>y\<close> is parameterized by the other.\<close>

definition env_circular :: VarInfo where
  "env_circular = \<lparr>isRealLValue = (\<lambda>v. True),
                   getBinning = (\<lambda>v r. if v = ''x'' then paramOn ''y''
                                        else if v = ''y'' then paramOn ''x'' else fixedBinning)\<rparr>"

section \<open>Construction of integral objects\<close>

text \<open>
  The nodes that integral construction builds. \<open>Integrand\<close> is the integrand on which
  \<open>createIntegral\<close> is called, with its name, the \<open>CACHEPARAMINT\<close> string attribute, if
  set. A \<open>RooRealIntegral\<close> records its integrand, the set it integrates over, the
  normalization set, the integrator configuration, the range name, and the inner
  integral it owns, if any. A \<open>RooAddition\<close> sums (and owns) its components. Names and
  titles of the constructed nodes are not part of the model.
\<close>

datatype RooAbsRealNode =
    Integrand (GetName: string) (cacheParamInt: "string option")
  | RooRealIntegral RooAbsRealNode RooArgSet "RooArgSet option" "nat option" "string option"
      "RooAbsRealNode option"
  | RooAddition "RooAbsRealNode list"

text \<open>
  A call ends in one of three ways: it throws (\<open>Inl\<close>), it returns the null pointer
  (\<open>Inr None\<close>), or it returns an object (\<open>Inr (Some n)\<close>).
\<close>

datatype failure =
    InvalidArgument string
  | RuntimeError string
  | CachingError string
  | OtherException string
  | NullPointerDereference

type_synonym outcome = "failure + RooAbsRealNode option"

text \<open>
  The collaborators that live outside the files at hand are parameters of the model:
  \<open>RooHelpers::checkIfRangesOverlap\<close>, and the selection
  \<open>RooHelpers::selectFromArgSet(*integral->getVariables(), cacheParamsStr)\<close> of the
  parameters over which the interpolating cache is built.
\<close>

record Collaborators =
  checkIfRangesOverlap :: "RooArgSet \<Rightarrow> string list \<Rightarrow> bool"
  selectCacheParams :: "RooAbsRealNode \<Rightarrow> string \<Rightarrow> RooArgSet"

text \<open>
  The loop of \<open>createIntObj\<close> (lines 611 to 653). It returns the \<open>error\<close> flag and the
  integral built so far. Each pass removes a non-empty subset of \<open>iset\<close>, so the loop ends.
\<close>

function integrationLoop ::
  "VarInfo \<Rightarrow> nat option \<Rightarrow> string option \<Rightarrow> RooArgSet \<Rightarrow> RooArgSet option \<Rightarrow> RooAbsRealNode
     \<Rightarrow> RooAbsRealNode option \<Rightarrow> bool \<times> RooAbsRealNode option" where
  "integrationLoop env cfg rangeName iset nset integrand integral =
     (if iset = [] then (False, integral)
      else (let innerSet = findInnerMostIntegration env iset rangeName in
            if innerSet = [] then (True, integral)
            else (let innerIntegral = integral;
                      integral' = RooRealIntegral integrand innerSet nset cfg rangeName innerIntegral
                  in integrationLoop env cfg rangeName (remove_all iset innerSet) None
                       integral' (Some integral'))))"
  by pat_completeness auto

termination
proof (relation "measure (\<lambda>(env, cfg, rangeName, iset, rest). length iset)")
  show "wf (measure (\<lambda>(env, cfg, rangeName, iset, rest). length iset))"
    by simp
next
  fix env :: VarInfo and cfg :: "nat option" and rangeName :: "string option"
    and iset :: RooArgSet and nset :: "RooArgSet option" and integrand :: RooAbsRealNode
    and integral :: "RooAbsRealNode option" and x xa xb
  assume x: "x = findInnerMostIntegration env iset rangeName" and ne: "x \<noteq> []"
  have add: "\<And>s xs. set (foldl add_arg s xs) = set s \<union> set xs"
  proof -
    fix s :: RooArgSet and xs
    show "set (foldl add_arg s xs) = set s \<union> set xs"
      by (induction xs arbitrary: s) (auto simp: add_arg_def)
  qed
  have step: "\<And>F P S v F' P' S'. classifyObs env iset rangeName (F, P, S) v = (F', P', S')
                \<Longrightarrow> set F' \<subseteq> set F \<and> set P' \<subseteq> insert v (set P)"
    by (auto simp: classifyObs_def Let_def add_arg_def remove_arg_def split: if_splits)
  have inv: "\<And>F P S F' P' S'. foldl (classifyObs env iset rangeName) (F, P, S) vs = (F', P', S')
                \<Longrightarrow> set F' \<subseteq> set F \<and> set P' \<subseteq> set P \<union> set vs" for vs
  proof (induction vs)
    case Nil
    then show ?case by simp
  next
    case (Cons v vs)
    obtain F1 P1 S1 where c: "classifyObs env iset rangeName (F, P, S) v = (F1, P1, S1)"
      by (cases "classifyObs env iset rangeName (F, P, S) v") auto
    with Cons.prems have "foldl (classifyObs env iset rangeName) (F1, P1, S1) vs = (F', P', S')"
      by simp
    from Cons.IH[OF this] step[OF c] show ?case by auto
  qed
  obtain F P S where f: "foldl (classifyObs env iset rangeName) (iset, [], []) iset = (F, P, S)"
    by (cases "foldl (classifyObs env iset rangeName) (iset, [], []) iset") auto
  from inv[OF f] have "set x \<subseteq> set iset"
    by (auto simp: x findInnerMostIntegration_def f Let_def add_all_def add remove_all_def)
  with ne obtain a where "a \<in> set x" and "a \<in> set iset"
    by (cases x) auto
  then have "length (remove_all iset x) < length iset"
    unfolding remove_all_def by (intro length_filter_less[of a]) auto
  then show "((env, cfg, rangeName, remove_all iset x, None, xb, Some xb),
              env, cfg, rangeName, iset, nset, integrand, integral)
             \<in> measure (\<lambda>(env, cfg, rangeName, iset, rest). length iset)"
    by simp
qed

declare integrationLoop.simps [simp del]

text \<open>
  The after-burner, lines 661 to 685. The interpolating cache is applied when the
  integrand carries a non-empty \<open>CACHEPARAMINT\<close> attribute that selects a non-empty set
  of parameters. On that branch line 675 moves the owning pointer \<open>integral\<close> into the
  new cache node (\<open>addOwnedComponents(std::move(integral))\<close>), which leaves \<open>integral\<close>
  null, and line 677 then reads \<open>integral->operMode()\<close>: the null pointer is
  dereferenced before the cache node can be returned on line 681.
\<close>

definition afterBurner :: "Collaborators \<Rightarrow> RooAbsRealNode \<Rightarrow> RooAbsRealNode \<Rightarrow> outcome" where
  "afterBurner host this integral =
     (case cacheParamInt this of
        None \<Rightarrow> Inr (Some integral)
      | Some cacheParamsStr \<Rightarrow>
          if cacheParamsStr \<noteq> [] then
            (let cacheParams = selectCacheParams host integral cacheParamsStr in
             if cacheParams \<noteq> [] then Inl NullPointerDereference
             else Inr (Some integral))
          else Inr (Some integral))"

definition createIntObj ::
  "VarInfo \<Rightarrow> Collaborators \<Rightarrow> RooAbsRealNode \<Rightarrow> RooArgSet \<Rightarrow> RooArgSet option \<Rightarrow> nat option
     \<Rightarrow> string option \<Rightarrow> outcome" where
  "createIntObj env host this iset2 nset2 cfg rangeName =
     (if iset2 = [] then Inr (Some (RooRealIntegral this iset2 nset2 cfg rangeName None))
      else (case integrationLoop env cfg rangeName iset2 nset2 this None of
              (error, integral) \<Rightarrow>
                if error then Inr None
                else (case integral of
                        None \<Rightarrow> Inr None
                      | Some i \<Rightarrow> afterBurner host this i)))"

definition singleRange :: "string option \<Rightarrow> bool" where
  \<comment> \<open>The range name is null or contains no comma: the simple case of \<open>createIntegral\<close>.\<close>
  "singleRange rangeName = (case rangeName of None \<Rightarrow> True | Some rn \<Rightarrow> CHR '','' \<notin> set rn)"

definition host_overlapping :: Collaborators where
  \<comment> \<open>Collaborators for concrete runs: every pair of ranges overlaps, no cache parameters.\<close>
  "host_overlapping = \<lparr>checkIfRangesOverlap = (\<lambda>iset tokens. True),
                        selectCacheParams = (\<lambda>integral str. [])\<rparr>"

definition host_caching :: Collaborators where
  \<comment> \<open>Collaborators for concrete runs: no ranges overlap, and the \<open>CACHEPARAMINT\<close>
      attribute names one parameter, which is a variable of the integral.\<close>
  "host_caching = \<lparr>checkIfRangesOverlap = (\<lambda>iset tokens. False),
                    selectCacheParams = (\<lambda>integral str. [str])\<rparr>"

text \<open>\<open>ROOT::Split(rangeName, ",")\<close>: the pieces between the commas, empty ones included.\<close>

fun Split :: "string \<Rightarrow> string list" where
  "Split [] = [[]]"
| "Split (c # cs) =
     (if c = CHR '','' then [] # Split cs
      else (case Split cs of [] \<Rightarrow> [[c]] | t # ts \<Rightarrow> (c # t) # ts))"

fun join_names :: "string list \<Rightarrow> string" where
  "join_names [] = []"
| "join_names [a] = a"
| "join_names (a # b # rest) = a @ '','' @ join_names (b # rest)"

definition printArgSet :: "RooArgSet \<Rightarrow> string" where
  \<comment> \<open>The inline print of a \<open>RooArgSet\<close> on a stream: its members' names in parentheses.\<close>
  "printArgSet s = ''('' @ join_names s @ '')''"

definition overlapMessage :: "RooAbsRealNode \<Rightarrow> RooArgSet \<Rightarrow> string \<Rightarrow> string" where
  "overlapMessage this iset rangeName =
     GetName this @ '' : integrating with respect to the variables '' @ printArgSet iset
       @ '' on the ranges  \"'' @ rangeName
       @ ''\" is not possible because the ranges are overlapping''"

text \<open>
  The components of a multi-range integral, one per range: an exception of
  \<open>createIntObj\<close> propagates, and a null result is dereferenced by \<open>addOwned\<close>.
\<close>

fun rangeComponents ::
  "VarInfo \<Rightarrow> Collaborators \<Rightarrow> RooAbsRealNode \<Rightarrow> RooArgSet \<Rightarrow> RooArgSet option \<Rightarrow> nat option
     \<Rightarrow> string list \<Rightarrow> failure + RooAbsRealNode list" where
  "rangeComponents env host this iset nset cfg [] = Inr []"
| "rangeComponents env host this iset nset cfg (token # tokens) =
     (case createIntObj env host this iset nset cfg (Some token) of
        Inl e \<Rightarrow> Inl e
      | Inr None \<Rightarrow> Inl NullPointerDereference
      | Inr (Some c) \<Rightarrow>
          (case rangeComponents env host this iset nset cfg tokens of
             Inl e \<Rightarrow> Inl e
           | Inr cs \<Rightarrow> Inr (c # cs)))"

definition createIntegral ::
  "VarInfo \<Rightarrow> Collaborators \<Rightarrow> RooAbsRealNode \<Rightarrow> RooArgSet \<Rightarrow> RooArgSet option \<Rightarrow> nat option
     \<Rightarrow> string option \<Rightarrow> outcome" where
  "createIntegral env host this iset nset cfg rangeName =
     (case rangeName of
        None \<Rightarrow> createIntObj env host this iset nset cfg rangeName
      | Some rn \<Rightarrow>
          if CHR '','' \<notin> set rn then createIntObj env host this iset nset cfg rangeName
          else (let tokens = Split rn in
                if checkIfRangesOverlap host iset tokens
                then Inl (InvalidArgument (overlapMessage this iset rn))
                else (case rangeComponents env host this iset nset cfg tokens of
                        Inl e \<Rightarrow> Inl e
                      | Inr components \<Rightarrow> Inr (Some (RooAddition components)))))"

section \<open>Values and node state\<close>

text \<open>
  A \<open>double\<close> is a finite value, an infinity or NaN. Finite arithmetic is exact real
  arithmetic: rounding and signed zeros are left out.
\<close>

datatype double = Fin real | PInf | NInf | NaN

fun IsNaN :: "double \<Rightarrow> bool" where
  "IsNaN NaN = True"
| "IsNaN _ = False"

fun isfinite :: "double \<Rightarrow> bool" where
  "isfinite (Fin _) = True"
| "isfinite _ = False"

fun dneg :: "double \<Rightarrow> double" where
  "dneg (Fin a) = Fin (- a)"
| "dneg PInf = NInf"
| "dneg NInf = PInf"
| "dneg NaN = NaN"

fun dadd :: "double \<Rightarrow> double \<Rightarrow> double" where
  "dadd NaN _ = NaN"
| "dadd _ NaN = NaN"
| "dadd (Fin a) (Fin b) = Fin (a + b)"
| "dadd PInf NInf = NaN"
| "dadd NInf PInf = NaN"
| "dadd PInf _ = PInf"
| "dadd _ PInf = PInf"
| "dadd NInf _ = NInf"
| "dadd _ NInf = NInf"

definition dsub :: "double \<Rightarrow> double \<Rightarrow> double" where
  "dsub a b = dadd a (dneg b)"

fun ddiv :: "double \<Rightarrow> double \<Rightarrow> double" where
  "ddiv NaN _ = NaN"
| "ddiv _ NaN = NaN"
| "ddiv (Fin a) (Fin b) =
     (if b \<noteq> 0 then Fin (a / b)
      else if a = 0 then NaN else if 0 < a then PInf else NInf)"
| "ddiv (Fin a) _ = Fin 0"
| "ddiv PInf (Fin b) = (if 0 \<le> b then PInf else NInf)"
| "ddiv NInf (Fin b) = (if 0 \<le> b then NInf else PInf)"
| "ddiv _ _ = NaN"

fun dgt :: "double \<Rightarrow> double \<Rightarrow> bool" where
  "dgt NaN _ = False"
| "dgt _ NaN = False"
| "dgt (Fin a) (Fin b) = (b < a)"
| "dgt PInf PInf = False"
| "dgt PInf _ = True"
| "dgt _ PInf = False"
| "dgt NInf _ = False"
| "dgt _ NInf = True"

datatype OperMode = Auto | AClean | ADirty

text \<open>
  The state of a node that the caching protocol reads and writes: the cached \<open>_value\<close>
  (for a category, the current index), the operating mode and the two dirty flags.
\<close>

record ArgState =
  isCategory :: bool
  cachedValue :: double
  currentIndex :: int
  operMode :: OperMode
  valueDirty :: bool
  shapeDirty :: bool

type_synonym Store = "string \<Rightarrow> ArgState"

definition toIndex :: "double \<Rightarrow> int" where
  \<comment> \<open>\<open>static_cast<int>(value)\<close>: truncation towards zero of a finite value (the cast of
      anything else is not defined by the language; the model yields 0).\<close>
  "toIndex v = (case v of Fin r \<Rightarrow> (if 0 \<le> r then \<lfloor>r\<rfloor> else \<lceil>r\<rceil>) | _ \<Rightarrow> 0)"

definition setCachedValue :: "double \<Rightarrow> bool \<Rightarrow> ArgState \<Rightarrow> ArgState" where
  \<comment> \<open>Modelled from the spec: \<open>setCachedValue\<close> is declared outside the files at hand; it
      force-sets the cached value (of a category, the index). With \<open>notifyClients\<close> the
      node's own value-dirty flag ends cleared.\<close>
  "setCachedValue v notifyClients a =
     (let a' = (if isCategory a then a\<lparr>currentIndex := toIndex v\<rparr> else a\<lparr>cachedValue := v\<rparr>)
      in if notifyClients then a'\<lparr>valueDirty := False\<rparr> else a')"

definition setOperMode :: "OperMode \<Rightarrow> ArgState \<Rightarrow> ArgState" where
  \<comment> \<open>Modelled from the spec: \<open>RooAbsArg::setOperMode\<close> is declared outside the files at
      hand; it sets the node's operating mode.\<close>
  "setOperMode m a = a\<lparr>operMode := m\<rparr>"

text \<open>
  What a concrete node class supplies: its name, the virtual functions \<open>evaluate()\<close>
  (which reads the servers and returns a value or throws), \<open>isValidReal\<close> and \<open>offset()\<close>,
  and the texts that its printing functions produce.
\<close>

record Methods =
  nodeName :: string
  evaluate :: "Store \<Rightarrow> failure + double"
  isValidReal :: "double \<Rightarrow> bool"
  offset :: double
  printProxies :: "Store \<Rightarrow> string"
  printOrigin :: string
  showDouble :: "double \<Rightarrow> string"
  formatCachingError :: "bool \<Rightarrow> double \<Rightarrow> double \<Rightarrow> double \<Rightarrow> double \<Rightarrow> string"
  formatPdfTree :: string

section \<open>Batch evaluation through the scalar evaluator\<close>

record ServerData =
  server :: string
  batch :: "double list"
  oldValue :: double
  oldOperMode :: OperMode
  oldValueDirty :: bool
  oldShapeDirty :: bool

text \<open>
  The first loop of \<open>RooAbsReal::doEval\<close> (lines 4226 to 4243): every server with a
  non-empty batch in the evaluation context is switched to \<open>AClean\<close> and its state is
  recorded.
\<close>

fun collectServers :: "(string \<Rightarrow> double list) \<Rightarrow> string list \<Rightarrow> Store \<Rightarrow> ServerData list \<times> Store" where
  "collectServers ctx [] st = ([], st)"
| "collectServers ctx (s # ss) st =
     (let serverValues = ctx s in
      if serverValues = [] then collectServers ctx ss st
      else (let oldOperMode = operMode (st s);
                st1 = st(s := setOperMode AClean (st s));
                sd = \<lparr>server = s, batch = serverValues,
                      oldValue = (if isCategory (st1 s) then Fin (of_int (currentIndex (st1 s)))
                                  else cachedValue (st1 s)),
                      oldOperMode = oldOperMode,
                      oldValueDirty = valueDirty (st1 s),
                      oldShapeDirty = shapeDirty (st1 s)\<rparr>
            in (case collectServers ctx ss st1 of (rest, st2) \<Rightarrow> (sd # rest, st2))))"

text \<open>The destructor of \<open>RestoreStateRAII\<close> (lines 4251 to 4258).\<close>

definition restoreServer :: "ServerData \<Rightarrow> Store \<Rightarrow> Store" where
  "restoreServer serverData st =
     st(server serverData :=
          (setOperMode (oldOperMode serverData)
             (setCachedValue (oldValue serverData) True (st (server serverData))))
          \<lparr>valueDirty := oldValueDirty serverData, shapeDirty := oldShapeDirty serverData\<rparr>)"

definition restoreState :: "ServerData list \<Rightarrow> Store \<Rightarrow> Store" where
  "restoreState ourServers st = fold restoreServer ourServers st"

text \<open>The inner loop of lines 4275 to 4277: the values of event \<open>i\<close> are side-loaded.\<close>

definition loadServer :: "nat \<Rightarrow> ServerData \<Rightarrow> Store \<Rightarrow> Store" where
  "loadServer i serv st =
     st(server serv :=
          setCachedValue (batch serv ! min i (length (batch serv) - 1)) False (st (server serv)))"

definition loadEvent :: "nat \<Rightarrow> ServerData list \<Rightarrow> Store \<Rightarrow> Store" where
  "loadEvent i ourServers st = fold (loadServer i) ourServers st"

text \<open>
  The event loop of lines 4274 to 4280, from index \<open>i\<close> for \<open>k\<close> more events. The scalar
  \<open>evaluate()\<close> reads the servers; it returns a value or throws. A throw ends the loop
  with the outputs written so far.
\<close>

fun eventLoop ::
  "Methods \<Rightarrow> ServerData list \<Rightarrow> nat \<Rightarrow> nat \<Rightarrow> double list \<Rightarrow> Store
     \<Rightarrow> failure option \<times> double list \<times> Store" where
  "eventLoop this ourServers i 0 output st = (None, output, st)"
| "eventLoop this ourServers i (Suc k) output st =
     (let st1 = loadEvent i ourServers st in
      case evaluate this st1 of
        Inl e \<Rightarrow> (Some e, output, st1)
      | Inr v \<Rightarrow> eventLoop this ourServers (Suc i) k (output[i := v]) st1)"

text \<open>
  \<open>doEval\<close> for the node \<open>this\<close> with the servers \<open>servers\<close>, the batches \<open>ctx\<close> of the
  evaluation context and its output buffer: the exception that ended the call, if any, the
  output buffer and the store of server states it leaves. The destructor runs on both
  exits.
\<close>

definition doEval ::
  "Methods \<Rightarrow> (string \<Rightarrow> double list) \<Rightarrow> string list \<Rightarrow> double list \<Rightarrow> Store
     \<Rightarrow> failure option \<times> double list \<times> Store" where
  "doEval this ctx servers output st =
     (case collectServers ctx servers st of
        (ourServers, st1) \<Rightarrow>
          (case eventLoop this ourServers 0 (length output) output st1 of
             (exc, output', st2) \<Rightarrow> (exc, output', restoreState ourServers st2)))"

text \<open>
  The per-event state as the specification words it: every server that has a buffer is
  in \<open>AClean\<close> mode with its cached value force-set to \<open>buffer[min(i, buffer.length-1)]\<close>;
  the other servers are as they were.
\<close>

definition spec_event_store :: "(string \<Rightarrow> double list) \<Rightarrow> string list \<Rightarrow> nat \<Rightarrow> Store \<Rightarrow> Store" where
  "spec_event_store ctx servers i st =
     (\<lambda>s. if s \<in> set servers \<and> ctx s \<noteq> []
          then setCachedValue (ctx s ! min i (length (ctx s) - 1)) False (setOperMode AClean (st s))
          else st s)"

text \<open>Concrete servers and nodes for runs of the batch evaluation.\<close>

definition idle :: ArgState where
  "idle = \<lparr>isCategory = False, cachedValue = Fin 0, currentIndex = 0, operMode = Auto,
           valueDirty = True, shapeDirty = False\<rparr>"

definition batches_xy :: "string \<Rightarrow> double list" where
  "batches_xy s = (if s = ''x'' then [Fin 1, Fin 2, Fin 3] else if s = ''y'' then [Fin 10] else [])"

definition sum_xy :: Methods where
  \<comment> \<open>A node whose value is the sum of its servers \<open>x\<close> and \<open>y\<close>.\<close>
  "sum_xy = \<lparr>nodeName = ''sum'',
             evaluate = (\<lambda>st. Inr (dadd (cachedValue (st ''x'')) (cachedValue (st ''y'')))),
             isValidReal = (\<lambda>v. True), offset = Fin 0, printProxies = (\<lambda>st. []),
             printOrigin = [], showDouble = (\<lambda>v. []),
             formatCachingError = (\<lambda>f a b c d. []), formatPdfTree = []\<rparr>"

definition failing_at_2 :: Methods where
  \<comment> \<open>A node that returns the value of \<open>x\<close>, and throws when that value is 2.\<close>
  "failing_at_2 = \<lparr>nodeName = ''g'',
             evaluate = (\<lambda>st. if cachedValue (st ''x'') = Fin 2 then Inl (RuntimeError ''domain'')
                               else Inr (cachedValue (st ''x''))),
             isValidReal = (\<lambda>v. True), offset = Fin 0, printProxies = (\<lambda>st. []),
             printOrigin = [], showDouble = (\<lambda>v. []),
             formatCachingError = (\<lambda>f a b c d. []), formatPdfTree = []\<rparr>"

text \<open>
  Notions for the invariants of the two loops. The store after the first loop: every
  server with a buffer is in \<open>AClean\<close> mode.
\<close>

definition forcedStore :: "(string \<Rightarrow> double list) \<Rightarrow> string list \<Rightarrow> Store \<Rightarrow> Store" where
  "forcedStore ctx servers st =
     (\<lambda>s. if s \<in> set servers \<and> ctx s \<noteq> [] then setOperMode AClean (st s) else st s)"

text \<open>The record that the first loop takes of a server in state \<open>a\<close>.\<close>

definition snapshotOf :: "string \<Rightarrow> double list \<Rightarrow> ArgState \<Rightarrow> ServerData" where
  "snapshotOf s b a =
     \<lparr>server = s, batch = b,
      oldValue = (if isCategory a then Fin (of_int (currentIndex a)) else cachedValue a),
      oldOperMode = operMode a, oldValueDirty = valueDirty a, oldShapeDirty = shapeDirty a\<rparr>"

text \<open>
  Two states of a node that differ at most in what side-loading, the mode switch and the
  restore write: the cached value (of a category, the index), the mode and the flags.
\<close>

definition sameUpTo :: "ArgState \<Rightarrow> ArgState \<Rightarrow> bool" where
  "sameUpTo a b \<longleftrightarrow> isCategory a = isCategory b
      \<and> (isCategory a \<longrightarrow> cachedValue a = cachedValue b)
      \<and> (\<not> isCategory a \<longrightarrow> currentIndex a = currentIndex b)
      \<and> ArgState.more a = ArgState.more b"

text \<open>A store that differs from \<open>st0\<close> in this way, and only at the recorded servers.\<close>

definition touchedOnly :: "ServerData list \<Rightarrow> Store \<Rightarrow> Store \<Rightarrow> bool" where
  "touchedOnly srv st0 st \<longleftrightarrow>
     (\<forall>s. sameUpTo (st s) (st0 s) \<and> (s \<notin> server ` set srv \<longrightarrow> st s = st0 s))"

section \<open>The caching protocol and the evaluation-error log\<close>

datatype ErrorLoggingMode = PrintErrors | CollectErrors | CountErrors | Ignore

record EvalError =
  msg :: string
  srvval :: string

text \<open>
  The process-wide \<open>EvalErrorData\<close>. The counter is a C \<open>int\<close>, a signed 32-bit
  machine integer read with \<open>sint\<close>; the increment of the largest value, which the language
  leaves undefined, wraps around in the model. The error list maps a node, by its name, to
  the text of its origin and its list of errors.
\<close>

record EvalErrorData =
  mode :: ErrorLoggingMode
  count :: "32 word"
  errorList :: "string \<rightharpoonup> string \<times> EvalError list"

datatype MsgLevel = DEBUG | INFO | WARNING | ERROR

text \<open>
  The global state: the error log, the static re-entrance flag of \<open>logEvalError\<close>, the
  flags \<open>_hideOffset\<close> and \<open>_inhibitDirty\<close>, the messages sent to the message service, and a
  counter of the calls of \<open>evaluate()\<close> (an instrument, not part of the source).
\<close>

record Globals =
  evalErrorData :: EvalErrorData
  inLogEvalError :: bool
  hideOffset :: bool
  inhibitDirty :: bool
  messages :: "(MsgLevel \<times> string) list"
  evaluateCalls :: nat

text \<open>The state of a real-valued node, beyond that of every node.\<close>

record RooAbsRealState = ArgState +
  lastNormSetId :: nat
  proxyNormSet :: "nat option"
  fast :: bool

record World =
  self :: RooAbsRealState
  store :: Store
  glob :: Globals

definition endl :: string where
  "endl = [CHR 0x0A]"

text \<open>
  \<open>RooAbsReal::logEvalError(message, serverValueString)\<close>, lines 3356 to 3426, as a
  transformer of the global state.
\<close>

definition logEvalError :: "Methods \<Rightarrow> string \<Rightarrow> string option \<Rightarrow> Store \<Rightarrow> Globals \<Rightarrow> Globals" where
  "logEvalError this message serverValueString st g =
     (let d = evalErrorData g in
      if mode d = Ignore then g
      else if mode d = CountErrors then g\<lparr>evalErrorData := d\<lparr>count := count d + 1\<rparr>\<rparr>
      else if inLogEvalError g then g
      else
        (let ee = \<lparr>msg = message,
                   srvval = (case serverValueString of
                               Some str \<Rightarrow> str
                             | None \<Rightarrow> printProxies this st)\<rparr>;
             oss2 = printOrigin this;
             g1 =
               (if mode d = PrintErrors then
                  g\<lparr>messages := messages g @
                      [(ERROR, ''RooAbsReal::logEvalError('' @ nodeName this
                          @ '') evaluation error, '' @ endl
                          @ '' origin       : '' @ oss2 @ endl
                          @ '' message      : '' @ msg ee @ endl
                          @ '' server values: '' @ srvval ee @ endl)]\<rparr>
                else if mode d = CollectErrors then
                  (let evalErrorList =
                         (case errorList d (nodeName this) of None \<Rightarrow> ([], []) | Some e \<Rightarrow> e);
                       full = (2048 \<le> length (snd evalErrorList));
                       g' = (if full then
                               g\<lparr>messages := messages g @
                                   [(DEBUG, ''RooAbsReal::logEvalError('' @ nodeName this
                                       @ '') delayed evaluation error, '' @ endl
                                       @ '' origin       : '' @ oss2 @ endl
                                       @ '' message      : '' @ msg (hd (snd evalErrorList)) @ endl
                                       @ '' server values: '' @ srvval (hd (snd evalErrorList))
                                       @ endl)]\<rparr>
                             else g);
                       kept = (if full then tl (snd evalErrorList) else snd evalErrorList)
                   in g'\<lparr>evalErrorData :=
                          d\<lparr>errorList := (errorList d)(nodeName this \<mapsto> (oss2, kept @ [ee]))\<rparr>\<rparr>)
                else g)
         in g1\<lparr>inLogEvalError := False\<rparr>))"

text \<open>\<open>RooAbsReal::traceEval\<close>, lines 316 to 336.\<close>

definition traceEval :: "Methods \<Rightarrow> World \<Rightarrow> (failure + double) \<times> World" where
  "traceEval this w =
     (let g0 = (glob w)\<lparr>evaluateCalls := evaluateCalls (glob w) + 1\<rparr> in
      case evaluate this (store w) of
        Inl e \<Rightarrow> (Inl e, w\<lparr>glob := g0\<rparr>)
      | Inr v \<Rightarrow>
          (let g1 = (if IsNaN v then logEvalError this ''function value is NAN'' None (store w) g0
                     else g0);
               g2 = (if \<not> isValidReal this v then
                       g1\<lparr>messages := messages g1 @
                           [(WARNING, ''RooAbsReal::traceEval('' @ nodeName this
                               @ ''): validation failed: '' @ showDouble this v @ endl)]\<rparr>
                     else g1)
           in (Inr v, w\<lparr>glob := g2\<rparr>)))"

definition isValueDirtyAndClear :: "RooAbsRealState \<Rightarrow> bool \<times> RooAbsRealState" where
  \<comment> \<open>Modelled from the spec: \<open>isValueDirtyAndClear\<close> is declared outside the files at
      hand. A node in \<open>AClean\<close> mode serves its cached value and never recomputes; in
      \<open>ADirty\<close> mode caching is bypassed; otherwise the value is recomputed when
      \<open>valueDirty\<close> is set, and the flag is cleared.\<close>
  "isValueDirtyAndClear a =
     (case operMode a of
        AClean \<Rightarrow> (False, a)
      | ADirty \<Rightarrow> (True, a)
      | Auto \<Rightarrow> (if valueDirty a then (True, a\<lparr>valueDirty := False\<rparr>) else (False, a)))"

definition setProxyNormSet :: "nat \<Rightarrow> RooAbsRealState \<Rightarrow> RooAbsRealState" where
  \<comment> \<open>Modelled from the spec: the normalization-context update hook, declared outside the
      files at hand; the proxies take note of the new normalization set.\<close>
  "setProxyNormSet nsetId a = a\<lparr>proxyNormSet := Some nsetId\<rparr>"

definition returnedValue :: "Methods \<Rightarrow> World \<Rightarrow> double" where
  \<comment> \<open>Line 309: \<open>hideOffset() ? _value + offset() : _value\<close>.\<close>
  "returnedValue this w =
     (if hideOffset (glob w) then dadd (cachedValue (self w)) (offset this)
      else cachedValue (self w))"

text \<open>
  \<open>RooAbsReal::getValV\<close>, lines 297 to 310. The normalization set is given by its unique
  id, \<open>None\<close> for the null pointer.
\<close>

definition getValV :: "Methods \<Rightarrow> nat option \<Rightarrow> World \<Rightarrow> (failure + double) \<times> World" where
  "getValV this nset w =
     (let a1 = (case nset of
                  Some nsetId \<Rightarrow>
                    if nsetId \<noteq> lastNormSetId (self w)
                    then (setProxyNormSet nsetId (self w))\<lparr>lastNormSetId := nsetId\<rparr>
                    else self w
                | None \<Rightarrow> self w)
      in case isValueDirtyAndClear a1 of
           (dirty, a2) \<Rightarrow>
             if dirty then
               (case traceEval this (w\<lparr>self := a2\<rparr>) of
                  (Inl e, w3) \<Rightarrow> (Inl e, w3)
                | (Inr v, w3) \<Rightarrow>
                    (let w4 = w3\<lparr>self := (self w3)\<lparr>cachedValue := v\<rparr>\<rparr>
                     in (Inr (returnedValue this w4), w4)))
             else (Inr (returnedValue this (w\<lparr>self := a2\<rparr>)), w\<lparr>self := a2\<rparr>))"

text \<open>\<open>RooAbsReal::_DEBUG_getVal\<close>, lines 4283 to 4320.\<close>

definition DEBUG_getVal :: "Methods \<Rightarrow> nat option \<Rightarrow> World \<Rightarrow> (failure + double) \<times> World" where
  "DEBUG_getVal this normalisationSet w =
     (let tmpFast = fast (self w);
          tmp = cachedValue (self w)
      in case getValV this normalisationSet w of
           (Inl (CachingError err), w1) \<Rightarrow> (Inl (CachingError (err @ formatPdfTree this)), w1)
         | (Inl e, w1) \<Rightarrow> (Inl e, w1)
         | (Inr fullEval, w1) \<Rightarrow>
             (let ret = (if fast (self w1) \<and> \<not> inhibitDirty (glob w1)
                         then cachedValue (self w1) else fullEval)
              in if isfinite ret
                    \<and> dgt (if ret \<noteq> Fin 0 then ddiv (dsub ret fullEval) ret else dsub ret fullEval)
                          (Fin (1 / 10 ^ 9))
                 then (Inl (CachingError
                         (formatCachingError this tmpFast tmp ret fullEval (cachedValue (self w1)))),
                       w1)
                 else (Inr ret, w1)))"

text \<open>Concrete nodes and states for runs of the caching protocol.\<close>

definition constNode :: "double \<Rightarrow> double \<Rightarrow> Methods" where
  \<comment> \<open>A node whose \<open>evaluate()\<close> returns \<open>v\<close> and whose \<open>offset()\<close> is \<open>off\<close>.\<close>
  "constNode v off = \<lparr>nodeName = ''n'', evaluate = (\<lambda>st. Inr v),
             isValidReal = (\<lambda>v. True), offset = off, printProxies = (\<lambda>st. []),
             printOrigin = ''n'', showDouble = (\<lambda>v. []),
             formatCachingError = (\<lambda>f a b c d. ''Scalar computation wrong here''),
             formatPdfTree = []\<rparr>"

definition nodeState :: "double \<Rightarrow> OperMode \<Rightarrow> bool \<Rightarrow> bool \<Rightarrow> RooAbsRealState" where
  "nodeState v m dirty f =
     \<lparr>isCategory = False, cachedValue = v, currentIndex = 0, operMode = m, valueDirty = dirty,
      shapeDirty = False, lastNormSetId = 0, proxyNormSet = None, fast = f\<rparr>"

definition globals0 :: "ErrorLoggingMode \<Rightarrow> bool \<Rightarrow> Globals" where
  "globals0 m hide =
     \<lparr>evalErrorData = \<lparr>mode = m, count = 0, errorList = Map.empty\<rparr>, inLogEvalError = False,
      hideOffset = hide, inhibitDirty = False, messages = [], evaluateCalls = 0\<rparr>"

definition world0 :: "RooAbsRealState \<Rightarrow> Globals \<Rightarrow> World" where
  "world0 a g = \<lparr>self = a, store = (\<lambda>s. idle), glob = g\<rparr>"

text \<open>
  Notions for the analysis of \<open>getValV\<close>. The global state after \<open>traceEval\<close> has checked
  the value \<open>v\<close> that \<open>evaluate()\<close> returned.
\<close>

definition loggedGlobals :: "Methods \<Rightarrow> double \<Rightarrow> Store \<Rightarrow> Globals \<Rightarrow> Globals" where
  "loggedGlobals this v st g0 =
     (let g1 = (if IsNaN v then logEvalError this ''function value is NAN'' None st g0 else g0)
      in if \<not> isValidReal this v then
           g1\<lparr>messages := messages g1 @
               [(WARNING, ''RooAbsReal::traceEval('' @ nodeName this
                   @ ''): validation failed: '' @ showDouble this v @ endl)]\<rparr>
         else g1)"

text \<open>The node recomputes on the next call of \<open>getValV\<close>.\<close>

definition needsEval :: "RooAbsRealState \<Rightarrow> bool" where
  "needsEval a \<longleftrightarrow> operMode a = ADirty \<or> (operMode a = Auto \<and> valueDirty a)"

text \<open>The node after the normalization-set step of \<open>getValV\<close> (lines 299 to 302).\<close>

definition afterNormSet :: "nat option \<Rightarrow> RooAbsRealState \<Rightarrow> RooAbsRealState" where
  "afterNormSet nset a =
     (case nset of
        Some nsetId \<Rightarrow>
          if nsetId \<noteq> lastNormSetId a then (setProxyNormSet nsetId a)\<lparr>lastNormSetId := nsetId\<rparr>
          else a
      | None \<Rightarrow> a)"

text \<open>The node after \<open>isValueDirtyAndClear\<close> has answered that it is dirty.\<close>

definition cleared :: "RooAbsRealState \<Rightarrow> RooAbsRealState" where
  "cleared a = (if operMode a = Auto then a\<lparr>valueDirty := False\<rparr> else a)"

section \<open>Linear error propagation\<close>

fun dmul :: "double \<Rightarrow> double \<Rightarrow> double" where
  "dmul NaN _ = NaN"
| "dmul _ NaN = NaN"
| "dmul (Fin a) (Fin b) = Fin (a * b)"
| "dmul (Fin a) PInf = (if a = 0 then NaN else if 0 < a then PInf else NInf)"
| "dmul (Fin a) NInf = (if a = 0 then NaN else if 0 < a then NInf else PInf)"
| "dmul PInf (Fin b) = (if b = 0 then NaN else if 0 < b then PInf else NInf)"
| "dmul NInf (Fin b) = (if b = 0 then NaN else if 0 < b then NInf else PInf)"
| "dmul PInf PInf = PInf"
| "dmul NInf NInf = PInf"
| "dmul PInf NInf = NInf"
| "dmul NInf PInf = NInf"

fun dsqrt :: "double \<Rightarrow> double" where
  "dsqrt (Fin a) = (if a < 0 then NaN else Fin (sqrt a))"
| "dsqrt PInf = PInf"
| "dsqrt NInf = NaN"
| "dsqrt NaN = NaN"

fun dabs :: "double \<Rightarrow> double" where
  "dabs (Fin a) = Fin \<bar>a\<bar>"
| "dabs PInf = PInf"
| "dabs NInf = PInf"
| "dabs NaN = NaN"

fun dle :: "double \<Rightarrow> double \<Rightarrow> bool" where
  "dle NaN _ = False"
| "dle _ NaN = False"
| "dle (Fin a) (Fin b) = (a \<le> b)"
| "dle NInf _ = True"
| "dle _ PInf = True"
| "dle _ _ = False"

definition dmin :: "double \<Rightarrow> double \<Rightarrow> double" where
  \<comment> \<open>\<open>std::min(a, b)\<close>: \<open>b\<close> if \<open>b < a\<close>, else \<open>a\<close>.\<close>
  "dmin a b = (if dgt a b then b else a)"

definition dmax :: "double \<Rightarrow> double \<Rightarrow> double" where
  \<comment> \<open>\<open>std::max(a, b)\<close>: \<open>b\<close> if \<open>a < b\<close>, else \<open>a\<close>.\<close>
  "dmax a b = (if dgt b a then b else a)"

definition epsilon :: double where
  \<comment> \<open>\<open>std::numeric_limits<double>::epsilon()\<close>.\<close>
  "epsilon = Fin (1 / 2 ^ 52)"

text \<open>
  A floated parameter as the fit result stores it (a snapshot: name, value, error), and a
  parameter of the node (a live variable: its name and range; its current value is in the
  state).
\<close>

record FitPar =
  fitName :: string
  fitVal :: double
  fitError :: double

record RooRealVar =
  rvName :: string
  rvMin :: double
  rvMax :: double

text \<open>
  The fit result: its floated parameters, its covariance matrix, and its reduction of the
  covariance matrix to a list of parameters (given by their names).
  \<open>reducedCovarianceMatrix\<close> is defined outside the files at hand and is a parameter.
\<close>

record RooFitResult =
  floatParsFinal :: "FitPar list"
  covarianceMatrix :: "nat \<Rightarrow> nat \<Rightarrow> double"
  reducedCovarianceMatrix :: "string list \<Rightarrow> nat \<Rightarrow> nat \<Rightarrow> double"

text \<open>
  What \<open>getPropagatedError\<close> uses of the node: its name, the parameters that
  \<open>getParameters\<close> yields, its value \<open>getVal(nset)\<close> as a function of the current values of
  the variables, and the range test \<open>inRange\<close> of its variables.
\<close>

record PropagationNode =
  pnName :: string
  allParamsInAbsReal :: "RooRealVar list"
  valueAt :: "(string \<Rightarrow> double) \<Rightarrow> double"
  inRange :: "RooRealVar \<Rightarrow> double \<Rightarrow> bool"

text \<open>
  The state: the current values of the variables, and three instruments: the number of
  calls of \<open>getVal\<close>, the number of covariance reductions, and the parameters for which the
  clipping warning was printed.
\<close>

record PropagationState =
  paramValues :: "string \<Rightarrow> double"
  getValCalls :: nat
  covReductions :: nat
  clipWarnings :: "string list"

definition setVal :: "RooRealVar \<Rightarrow> double \<Rightarrow> PropagationState \<Rightarrow> PropagationState" where
  "setVal rrv v s = s\<lparr>paramValues := (paramValues s)(rvName rrv := v)\<rparr>"

definition getVal :: "PropagationNode \<Rightarrow> PropagationState \<Rightarrow> double \<times> PropagationState" where
  "getVal this s = (valueAt this (paramValues s), s\<lparr>getValCalls := getValCalls s + 1\<rparr>)"

definition zeroError :: "FitPar \<Rightarrow> bool" where
  \<comment> \<open>Line 2448: the parameter has zero error.\<close>
  "zeroError p = dle (fitError p) (dmul (dabs (fitVal p)) epsilon)"

definition diverged :: "(string \<Rightarrow> double) \<Rightarrow> RooRealVar \<Rightarrow> FitPar \<Rightarrow> bool" where
  \<comment> \<open>Line 2455: the variable's value is away from the value in the fit result.\<close>
  "diverged vals v p =
     dgt (dabs (dsub (vals (rvName v)) (fitVal p))) (dmul (Fin (1 / 100)) (fitError p))"

datatype paramScan = Thrown | EarlyReturn double | ParamList "RooRealVar list"

text \<open>The loop over the floated parameters of the fit result, lines 2439 to 2464.\<close>

fun scanFitParams ::
  "PropagationNode \<Rightarrow> (string \<Rightarrow> double) \<Rightarrow> FitPar list \<Rightarrow> RooRealVar list \<Rightarrow> paramScan" where
  "scanFitParams this vals [] paramList = ParamList paramList"
| "scanFitParams this vals (rrvFitRes # rest) paramList =
     (let rrvInAbsReal = find (\<lambda>v. rvName v = fitName rrvFitRes) (allParamsInAbsReal this) in
      if fitName rrvFitRes = pnName this then EarlyReturn (fitError rrvFitRes)
      else if zeroError rrvFitRes then scanFitParams this vals rest paramList
      else (case rrvInAbsReal of
              None \<Rightarrow> scanFitParams this vals rest paramList
            | Some v \<Rightarrow>
                if diverged vals v rrvFitRes then Thrown
                else scanFitParams this vals rest (paramList @ [v])))"

text \<open>The loop over the parameter list that makes the variations, lines 2476 to 2504.\<close>

fun variations ::
  "PropagationNode \<Rightarrow> (nat \<Rightarrow> nat \<Rightarrow> double) \<Rightarrow> RooRealVar list \<Rightarrow> nat
     \<Rightarrow> double list \<times> double list \<times> PropagationState
     \<Rightarrow> double list \<times> double list \<times> PropagationState" where
  "variations this V [] ivar acc = acc"
| "variations this V (rrv # rest) ivar (plusVar, minusVar, s) =
     (let cenVal = paramValues s (rvName rrv);
          errVal = dsqrt (V ivar ivar);
          s1 = (if \<not> inRange this rrv (dadd cenVal errVal) \<or> \<not> inRange this rrv (dsub cenVal errVal)
                then s\<lparr>clipWarnings := clipWarnings s @ [rvName rrv]\<rparr> else s);
          s2 = setVal rrv (dmin (dadd cenVal errVal) (rvMax rrv)) s1
      in case getVal this s2 of
           (plusVal, s3) \<Rightarrow>
             (let s4 = setVal rrv (dmax (dsub cenVal errVal) (rvMin rrv)) s3
              in case getVal this s4 of
                   (minusVal, s5) \<Rightarrow>
                     variations this V rest (Suc ivar)
                       (plusVar @ [plusVal], minusVar @ [minusVal], setVal rrv cenVal s5)))"

text \<open>The correlation matrix, lines 2515 to 2523; it starts as the zero matrix.\<close>

definition corrEntry :: "(nat \<Rightarrow> nat \<Rightarrow> double) \<Rightarrow> nat \<Rightarrow> nat \<Rightarrow> double" where
  "corrEntry V i j = ddiv (V i j) (dsqrt (dmul (V i i) (V j j)))"

definition fillRow ::
  "(nat \<Rightarrow> nat \<Rightarrow> double) \<Rightarrow> nat \<Rightarrow> nat \<Rightarrow> (nat \<times> nat \<Rightarrow> double) \<Rightarrow> (nat \<times> nat \<Rightarrow> double)" where
  "fillRow V n i C = fold (\<lambda>j C. C((i, j) := corrEntry V i j, (j, i) := corrEntry V i j)) [i..<n] C"

definition correlationMatrix :: "(nat \<Rightarrow> nat \<Rightarrow> double) \<Rightarrow> nat \<Rightarrow> (nat \<times> nat \<Rightarrow> double)" where
  "correlationMatrix V n = fold (fillRow V n) [0..<n] (\<lambda>ij. Fin 0)"

definition dsum :: "double list \<Rightarrow> double" where
  "dsum xs = foldl dadd (Fin 0) xs"

definition quadraticForm :: "double list \<Rightarrow> (nat \<times> nat \<Rightarrow> double) \<Rightarrow> double" where
  \<comment> \<open>\<open>F*(C*F)\<close>: the matrix times the vector, then the scalar product.\<close>
  "quadraticForm F C =
     dsum (map (\<lambda>i. dmul (F ! i) (dsum (map (\<lambda>j. dmul (C (i, j)) (F ! j)) [0..<length F])))
             [0..<length F])"

definition mismatchMessage :: string where
  "mismatchMessage = ''RooAbsReal::getPropagatedError(): the parameters of the RooAbsReal don't have''
     @ '' the same values as in the fit result! The logic of getPropagatedError is broken in this case.''"

text \<open>\<open>RooAbsReal::getPropagatedError\<close>, lines 2431 to 2535.\<close>

definition getPropagatedError ::
  "PropagationNode \<Rightarrow> RooFitResult \<Rightarrow> PropagationState \<Rightarrow> (failure + double) \<times> PropagationState" where
  "getPropagatedError this fr s =
     (case scanFitParams this (paramValues s) (floatParsFinal fr) [] of
        EarlyReturn e \<Rightarrow> (Inr e, s)
      | Thrown \<Rightarrow> (Inl (RuntimeError mismatchMessage), s)
      | ParamList paramList \<Rightarrow>
          (let (V, s0) =
                 (if length paramList = length (floatParsFinal fr) then (covarianceMatrix fr, s)
                  else (reducedCovarianceMatrix fr (map rvName paramList),
                        s\<lparr>covReductions := covReductions s + 1\<rparr>))
           in case variations this V paramList 0 ([], [], s0) of
                (plusVar, minusVar, s1) \<Rightarrow>
                  (let s2 = snd (getVal this s1);
                       C = correlationMatrix V (length paramList);
                       F = map (\<lambda>j. dmul (dsub (plusVar ! j) (minusVar ! j)) (Fin (1 / 2)))
                             [0..<length plusVar];
                       total = quadraticForm F C
                   in (Inr (dsqrt total), s2))))"

text \<open>
  The parameter list that the scan builds when it neither returns early nor throws: the
  floated parameters with a non-zero error that are parameters of the node, in the order
  of the fit result. The covariance matrix that is used for them.
\<close>

definition relevantParams :: "PropagationNode \<Rightarrow> FitPar list \<Rightarrow> RooRealVar list" where
  "relevantParams this fps =
     List.map_filter
       (\<lambda>p. if zeroError p then None
            else find (\<lambda>v. rvName v = fitName p) (allParamsInAbsReal this)) fps"

definition chosenCovariance :: "RooFitResult \<Rightarrow> RooRealVar list \<Rightarrow> nat \<Rightarrow> nat \<Rightarrow> double" where
  "chosenCovariance fr pl =
     (if length pl = length (floatParsFinal fr) then covarianceMatrix fr
      else reducedCovarianceMatrix fr (map rvName pl))"

text \<open>
  The values at which the variation loop evaluates the node for the \<open>i\<close>-th parameter:
  with that parameter alone moved from its central value by \<open>sqrt(Cov_ii)\<close>, up but not
  above its maximum (\<open>plusAt\<close>), and down but not below its minimum (\<open>minusAt\<close>); and the
  vector of half differences of the two.
\<close>

definition plusAt :: "PropagationNode \<Rightarrow> (nat \<Rightarrow> nat \<Rightarrow> double) \<Rightarrow> (string \<Rightarrow> double) \<Rightarrow> nat \<Rightarrow> RooRealVar \<Rightarrow> double" where
  "plusAt this V vals i rrv =
     valueAt this
       (vals(rvName rrv :=
          (if dgt (dadd (vals (rvName rrv)) (dsqrt (V i i))) (rvMax rrv) then rvMax rrv
           else dadd (vals (rvName rrv)) (dsqrt (V i i)))))"

definition minusAt :: "PropagationNode \<Rightarrow> (nat \<Rightarrow> nat \<Rightarrow> double) \<Rightarrow> (string \<Rightarrow> double) \<Rightarrow> nat \<Rightarrow> RooRealVar \<Rightarrow> double" where
  "minusAt this V vals i rrv =
     valueAt this
       (vals(rvName rrv :=
          (if dgt (rvMin rrv) (dsub (vals (rvName rrv)) (dsqrt (V i i))) then rvMin rrv
           else dsub (vals (rvName rrv)) (dsqrt (V i i)))))"

definition halfDifferences ::
  "PropagationNode \<Rightarrow> (nat \<Rightarrow> nat \<Rightarrow> double) \<Rightarrow> (string \<Rightarrow> double) \<Rightarrow> RooRealVar list \<Rightarrow> double list" where
  "halfDifferences this V vals pl =
     map (\<lambda>i. ddiv (dsub (plusAt this V vals i (pl ! i)) (minusAt this V vals i (pl ! i))) (Fin 2))
       [0..<length pl]"

text \<open>
  The linear formula of the specification. A value is clipped to the legal range of a
  parameter, the interval from its minimum to its maximum. \<open>plus_i\<close> and \<open>minus_i\<close> are the
  node's values with the \<open>i\<close>-th parameter alone moved from its central value by
  \<open>sqrt(Cov_ii)\<close>, up and down, each clipped to the legal range;
  \<open>F_i = (plus_i - minus_i)/2\<close>; \<open>C_ij = Cov_ij / sqrt(Cov_ii Cov_jj)\<close>; the result is the
  square root of \<open>F\<close> times \<open>C\<close> times \<open>F\<close>.
\<close>

definition clipToRange :: "RooRealVar \<Rightarrow> double \<Rightarrow> double" where
  "clipToRange rrv x =
     (if dgt x (rvMax rrv) then rvMax rrv else if dgt (rvMin rrv) x then rvMin rrv else x)"

definition spec_plus :: "PropagationNode \<Rightarrow> (nat \<Rightarrow> nat \<Rightarrow> double) \<Rightarrow> (string \<Rightarrow> double) \<Rightarrow> nat \<Rightarrow> RooRealVar \<Rightarrow> double" where
  "spec_plus this V vals i rrv =
     valueAt this
       (vals(rvName rrv := clipToRange rrv (dadd (vals (rvName rrv)) (dsqrt (V i i)))))"

definition spec_minus :: "PropagationNode \<Rightarrow> (nat \<Rightarrow> nat \<Rightarrow> double) \<Rightarrow> (string \<Rightarrow> double) \<Rightarrow> nat \<Rightarrow> RooRealVar \<Rightarrow> double" where
  "spec_minus this V vals i rrv =
     valueAt this
       (vals(rvName rrv := clipToRange rrv (dsub (vals (rvName rrv)) (dsqrt (V i i)))))"

definition spec_F ::
  "PropagationNode \<Rightarrow> (nat \<Rightarrow> nat \<Rightarrow> double) \<Rightarrow> (string \<Rightarrow> double) \<Rightarrow> RooRealVar list \<Rightarrow> double list" where
  "spec_F this V vals pl =
     map (\<lambda>i. ddiv (dsub (spec_plus this V vals i (pl ! i)) (spec_minus this V vals i (pl ! i)))
                (Fin 2))
       [0..<length pl]"

definition spec_C :: "(nat \<Rightarrow> nat \<Rightarrow> double) \<Rightarrow> nat \<times> nat \<Rightarrow> double" where
  "spec_C V = (\<lambda>(i, j). ddiv (V i j) (dsqrt (dmul (V i i) (V j j))))"

definition spec_propagatedError ::
  "PropagationNode \<Rightarrow> (nat \<Rightarrow> nat \<Rightarrow> double) \<Rightarrow> (string \<Rightarrow> double) \<Rightarrow> RooRealVar list \<Rightarrow> double" where
  "spec_propagatedError this V vals pl = dsqrt (quadraticForm (spec_F this V vals pl) (spec_C V))"

text \<open>Concrete nodes, fit results and states for runs of the error propagation.\<close>

definition var_a :: RooRealVar where
  "var_a = \<lparr>rvName = ''a'', rvMin = Fin 0, rvMax = Fin 10\<rparr>"

definition node_ax :: PropagationNode where
  "node_ax = \<lparr>pnName = ''f'', allParamsInAbsReal = [var_a],
              valueAt = (\<lambda>vals. dmul (vals ''a'') (vals ''x'')),
              inRange = (\<lambda>v x. dle (rvMin v) x \<and> dle x (rvMax v))\<rparr>"

text \<open>The same with a range of \<open>a\<close> so narrow that both variations are clipped.\<close>

definition var_a_narrow :: RooRealVar where
  "var_a_narrow = \<lparr>rvName = ''a'', rvMin = Fin (39 / 20), rvMax = Fin (41 / 20)\<rparr>"

definition node_ax_narrow :: PropagationNode where
  "node_ax_narrow = \<lparr>pnName = ''f'', allParamsInAbsReal = [var_a_narrow],
              valueAt = (\<lambda>vals. dmul (vals ''a'') (vals ''x'')),
              inRange = (\<lambda>v x. dle (rvMin v) x \<and> dle x (rvMax v))\<rparr>"

text \<open>A variable \<open>b\<close>: a node without servers, of which \<open>getParameters\<close> yields nothing.\<close>

definition leaf_b :: PropagationNode where
  "leaf_b = \<lparr>pnName = ''b'', allParamsInAbsReal = [],
              valueAt = (\<lambda>vals. vals ''b''),
              inRange = (\<lambda>v x. dle (rvMin v) x \<and> dle x (rvMax v))\<rparr>"

definition fit_a :: RooFitResult where
  "fit_a = \<lparr>floatParsFinal = [\<lparr>fitName = ''a'', fitVal = Fin 2, fitError = Fin (1 / 10)\<rparr>],
            covarianceMatrix = (\<lambda>i j. Fin (1 / 100)),
            reducedCovarianceMatrix = (\<lambda>names i j. Fin 0)\<rparr>"

definition fit_ab :: RooFitResult where
  "fit_ab = \<lparr>floatParsFinal = [\<lparr>fitName = ''a'', fitVal = Fin 1, fitError = Fin (1 / 10)\<rparr>,
                               \<lparr>fitName = ''b'', fitVal = Fin 2, fitError = Fin (3 / 10)\<rparr>],
            covarianceMatrix = (\<lambda>i j. if i = j then (if i = 0 then Fin (1 / 100) else Fin (9 / 100))
                                        else Fin 0),
            reducedCovarianceMatrix = (\<lambda>names i j. Fin (1 / 100))\<rparr>"

definition values_a2_x3 :: PropagationState where
  "values_a2_x3 = \<lparr>paramValues = (\<lambda>n. if n = ''a'' then Fin 2 else Fin 3),
                   getValCalls = 0, covReductions = 0, clipWarnings = []\<rparr>"

definition values_all_5 :: PropagationState where
  "values_all_5 = \<lparr>paramValues = (\<lambda>n. Fin 5),
                   getValCalls = 0, covReductions = 0, clipWarnings = []\<rparr>"

chapter \<open>Properties\<close>

section \<open>Facts about argument sets and the inner-most integration set\<close>

lemma set_add_arg: "set (add_arg s a) = insert a (set s)"
  by (auto simp: add_arg_def)

lemma set_add_all: "set (add_all s xs) = set s \<union> set xs"
  unfolding add_all_def by (induction xs arbitrary: s) (auto simp: set_add_arg)

lemma set_remove_arg: "set (remove_arg s a) = set s - {a}"
  by (auto simp: remove_arg_def)

lemma set_remove_all: "set (remove_all s xs) = set s - set xs"
  by (auto simp: remove_all_def)

lemma set_getObservables: "set (getObservables leaves depList) = set leaves \<inter> set depList"
  by (auto simp: getObservables_def set_add_all)

lemma overlaps_iff: "overlaps a b \<longleftrightarrow> set a \<inter> set b \<noteq> {}"
  by (auto simp: overlaps_def list_ex_iff)

lemma rangeDependsOn_iff:
  "rangeDependsOn env allObs r v \<longleftrightarrow>
     isRealLValue env v \<and> isParameterized (getBinning env v r)
     \<and> set (boundLeaves env r v) \<inter> set allObs \<noteq> {}"
  by (auto simp: rangeDependsOn_def list_ex_iff)

lemma servesAsRangeParam_iff:
  "servesAsRangeParam env allObs r w \<longleftrightarrow>
     (\<exists>v\<in>set allObs. rangeDependsOn env allObs r v \<and> w \<in> set (boundLeaves env r v))"
  by (auto simp: servesAsRangeParam_def list_ex_iff)

lemma classifyObs_sets:
  assumes "classifyObs env allObs r (F, P, S) v = (F', P', S')"
  shows "set F' = (if rangeDependsOn env allObs r v then set F - {v} else set F)"
    and "set P' = (if rangeDependsOn env allObs r v then insert v (set P) else set P)"
    and "set S' = (if rangeDependsOn env allObs r v
                   then set S \<union> (set (boundLeaves env r v) \<inter> set allObs) else set S)"
  using assms
  by (auto simp: classifyObs_def Let_def rangeDependsOn_iff boundLeaves_def overlaps_iff
      set_getObservables set_add_all set_add_arg set_remove_arg split: if_splits)

lemma foldl_classifyObs_sets:
  assumes "foldl (classifyObs env allObs r) (F, P, S) vs = (F', P', S')"
  shows "set F' = set F - {v \<in> set vs. rangeDependsOn env allObs r v}
       \<and> set P' = set P \<union> {v \<in> set vs. rangeDependsOn env allObs r v}
       \<and> set S' = set S \<union> {w \<in> set allObs. \<exists>v\<in>set vs. rangeDependsOn env allObs r v
                                  \<and> w \<in> set (boundLeaves env r v)}"
  using assms
proof (induction vs arbitrary: F P S)
  case Nil
  then show ?case by simp
next
  case (Cons v vs)
  obtain F1 P1 S1 where st: "classifyObs env allObs r (F, P, S) v = (F1, P1, S1)"
    by (cases "classifyObs env allObs r (F, P, S) v") auto
  from Cons.prems st have "foldl (classifyObs env allObs r) (F1, P1, S1) vs = (F', P', S')"
    by simp
  from Cons.IH[OF this] classifyObs_sets[OF st] show ?case
    by (auto split: if_splits)
qed

lemma set_findInnerMostIntegration:
  "set (findInnerMostIntegration env allObs r) =
     {w \<in> set allObs. \<not> servesAsRangeParam env allObs r w}"
proof -
  obtain F P S where f: "foldl (classifyObs env allObs r) (allObs, [], []) allObs = (F, P, S)"
    by (cases "foldl (classifyObs env allObs r) (allObs, [], []) allObs") auto
  from foldl_classifyObs_sets[OF f] show ?thesis
    by (auto simp: findInnerMostIntegration_def f Let_def set_add_all set_remove_all
        servesAsRangeParam_iff)
qed

lemma length_remove_all_less:
  assumes "innerSet \<noteq> []" and "set innerSet \<subseteq> set iset"
  shows "length (remove_all iset innerSet) < length iset"
proof -
  from assms obtain a where "a \<in> set innerSet" and "a \<in> set iset"
    by (cases innerSet) auto
  then show ?thesis
    unfolding remove_all_def by (intro length_filter_less[of a]) auto
qed

section \<open>Properties of the integral decomposition\<close>

lemmas argset_defs = findInnerMostIntegration_def classifyObs_def getObservables_def add_all_def
  add_arg_def overlaps_def remove_arg_def remove_all_def Let_def

lemma distinct_add_arg: "distinct s \<Longrightarrow> distinct (add_arg s a)"
  by (simp add: add_arg_def)

lemma distinct_add_all: "distinct s \<Longrightarrow> distinct (add_all s xs)"
  unfolding add_all_def by (induction xs arbitrary: s) (simp_all add: distinct_add_arg)

lemma distinct_findInnerMostIntegration: "distinct (findInnerMostIntegration env allObs r)"
  by (simp add: findInnerMostIntegration_def Let_def distinct_add_all split: prod.splits)

lemma distinct_singleton: "distinct xs \<Longrightarrow> set xs = {a} \<Longrightarrow> xs = [a]"
proof (cases xs)
  case Nil
  assume "set xs = {a}"
  with Nil show ?thesis by simp
next
  case (Cons b bs)
  assume d: "distinct xs" and s: "set xs = {a}"
  from s Cons have ba: "b = a" by auto
  have "bs = []"
  proof (cases bs)
    case Nil
    then show ?thesis .
  next
    case (Cons c cs)
    with s \<open>xs = b # bs\<close> have "c = a" by auto
    with d ba Cons \<open>xs = b # bs\<close> show ?thesis by simp
  qed
  with ba Cons show ?thesis by simp
qed

lemma findInnerMostIntegration_empty_iff:
  "findInnerMostIntegration env allObs r = [] \<longleftrightarrow>
     (\<forall>w\<in>set allObs. servesAsRangeParam env allObs r w)"
proof -
  have "findInnerMostIntegration env allObs r = [] \<longleftrightarrow>
          set (findInnerMostIntegration env allObs r) = {}" by simp
  then show ?thesis unfolding set_findInnerMostIntegration by auto
qed

lemma inner_x_of_y:
  assumes "x \<noteq> y" "hasParamRange env r x" "y \<in> set (boundLeaves env r x)"
    "x \<notin> set (boundLeaves env r x)" "\<not> hasParamRange env r y"
    "iset = [x, y] \<or> iset = [y, x]"
  shows "findInnerMostIntegration env iset r = [x]"
    and "remove_all iset [x] = [y]"
    and "findInnerMostIntegration env [y] r = [y]"
proof -
  have sx: "set (findInnerMostIntegration env iset r) = {x}"
    using assms
    by (auto simp: set_findInnerMostIntegration servesAsRangeParam_iff rangeDependsOn_iff
        hasParamRange_def)
  then show "findInnerMostIntegration env iset r = [x]"
    by (intro distinct_singleton distinct_findInnerMostIntegration)
  show "remove_all iset [x] = [y]" using assms by (auto simp: remove_all_def)
  have "set (findInnerMostIntegration env [y] r) = {y}"
    using assms
    by (auto simp: set_findInnerMostIntegration servesAsRangeParam_iff rangeDependsOn_iff
        hasParamRange_def)
  then show "findInnerMostIntegration env [y] r = [y]"
    by (intro distinct_singleton distinct_findInnerMostIntegration)
qed

lemma inner_circular:
  assumes "hasParamRange env r x" "y \<in> set (boundLeaves env r x)"
    "hasParamRange env r y" "x \<in> set (boundLeaves env r y)"
    "set iset = {x, y}"
  shows "findInnerMostIntegration env iset r = []"
  unfolding findInnerMostIntegration_empty_iff
  using assms
  by (auto simp: servesAsRangeParam_iff rangeDependsOn_iff hasParamRange_def)

lemma createIntegral_single:
  "singleRange rangeName \<Longrightarrow>
   createIntegral env host this iset nset cfg rangeName =
   createIntObj env host this iset nset cfg rangeName"
  by (auto simp: singleRange_def createIntegral_def split: option.splits)

text \<open>
  Claim C1, as the code has it. One pass of \<open>findInnerMostIntegration\<close> selects exactly the
  pending variables that do not serve as a range parameter of a pending variable: (a) the
  variables whose range does not depend on the pending set (a fixed range, or a
  parameterized range whose bound functions have no leaf among the pending variables),
  together with (b) the variables whose parameterized range does depend on pending
  variables, in both cases only those that are not a leaf of the bound functions of a
  pending variable with such a dependent range. Group (b) is part of the inner subset.
\<close>

theorem findInnerMostIntegration_selects_non_range_params:
  "set (findInnerMostIntegration env allObs rangeName) =
     set (filter (\<lambda>w. \<not> rangeDependsOn env allObs rangeName w
                       \<and> \<not> servesAsRangeParam env allObs rangeName w) allObs)
     \<union> set (filter (\<lambda>w. rangeDependsOn env allObs rangeName w
                       \<and> \<not> servesAsRangeParam env allObs rangeName w) allObs)"
  by (auto simp: set_findInnerMostIntegration)

text \<open>
  Claim C1 as stated fails where \<open>y\<close> has a fixed range and the bounds of \<open>x\<close> are functions
  of \<open>y\<close>: the stated rule selects nothing from \<open>{x, y}\<close>, whereas the code selects \<open>x\<close>,
  a parameterized-range variable whose bounds depend on the other pending variable.
\<close>

theorem findInnerMostIntegration_differs_from_stated_rule:
  "set (findInnerMostIntegration env_x_of_y [''x'', ''y''] None)
     \<noteq> spec_inner_subset env_x_of_y [''x'', ''y''] None
   \<and> ''x'' \<in> set (findInnerMostIntegration env_x_of_y [''x'', ''y''] None)
   \<and> hasParamRange env_x_of_y None ''x''
   \<and> dependsOnOther env_x_of_y [''x'', ''y''] None ''x''"
  by (simp add: argset_defs spec_inner_subset_def hasParamRange_def usedByOther_def
      dependsOnOther_def boundLeaves_def env_x_of_y_def paramOn_def fixedBinning_def)

text \<open>
  Claim C2. When the range name contains a comma and the collaborator
  \<open>checkIfRangesOverlap\<close> reports that the named ranges overlap for the integration
  variables, \<open>createIntegral\<close> ends by throwing \<open>std::invalid_argument\<close>: no object is
  returned. The message names the node, the variables and the range string, and says that
  the ranges are overlapping.
\<close>

theorem createIntegral_overlapping_ranges_fail:
  assumes "CHR '','' \<in> set rn" and "checkIfRangesOverlap host iset (Split rn)"
  shows "createIntegral env host this iset nset cfg (Some rn) =
           Inl (InvalidArgument (GetName this @ '' : integrating with respect to the variables ''
             @ printArgSet iset @ '' on the ranges  \"'' @ rn
             @ ''\" is not possible because the ranges are overlapping''))"
  using assms by (simp add: createIntegral_def overlapMessage_def)

theorem createIntegral_overlapping_ranges_fail_witness:
  "createIntegral env_x_of_y host_overlapping (Integrand ''f'' None) [''x''] None None
     (Some ''R1,R2'') =
     Inl (InvalidArgument
       ''f : integrating with respect to the variables (x) on the ranges  \"R1,R2\" is not possible because the ranges are overlapping'')"
  using createIntegral_overlapping_ranges_fail
          [of "''R1,R2''" host_overlapping "[''x'']" env_x_of_y "Integrand ''f'' None" None None]
  by (simp add: host_overlapping_def printArgSet_def)

text \<open>
  The recursive strategy. Let the range name be a single range, let \<open>y\<close> have a fixed
  range and let the bounds of \<open>x\<close> be functions of \<open>y\<close> (and not of \<open>x\<close>). Then the loop of
  \<open>createIntObj\<close> over \<open>{x, y}\<close>, in either order, builds the integral over \<open>x\<close> of the
  integrand, with the caller's normalization set, and around it the integral over \<open>y\<close>,
  with no normalization set, which owns the inner one; \<open>createIntegral\<close> ends as the
  after-burner does on that integral, and returns it when the integrand has no
  \<open>CACHEPARAMINT\<close> attribute. In an environment \<open>env'\<close> where each of \<open>x\<close> and \<open>y\<close> has a
  range parameterized by the other, the first pass finds an empty inner set and
  \<open>createIntegral\<close> returns the null pointer.
\<close>

lemma createIntegral_nested_or_null:
  assumes single: "singleRange rangeName"
    and order: "iset = [x, y] \<or> iset = [y, x]"
    and xy: "x \<noteq> y"
    and x_param: "hasParamRange env rangeName x"
    and x_of_y: "y \<in> set (boundLeaves env rangeName x)"
    and x_not_self: "x \<notin> set (boundLeaves env rangeName x)"
    and y_fixed: "\<not> hasParamRange env rangeName y"
    and cx_param: "hasParamRange env' rangeName x"
    and cx_of_y: "y \<in> set (boundLeaves env' rangeName x)"
    and cy_param: "hasParamRange env' rangeName y"
    and cy_of_x: "x \<in> set (boundLeaves env' rangeName y)"
  shows "integrationLoop env cfg rangeName iset nset this None =
           (False,
            Some (RooRealIntegral (RooRealIntegral this [x] nset cfg rangeName None) [y] None cfg
                    rangeName (Some (RooRealIntegral this [x] nset cfg rangeName None))))
       \<and> createIntegral env host this iset nset cfg rangeName =
           afterBurner host this
             (RooRealIntegral (RooRealIntegral this [x] nset cfg rangeName None) [y] None cfg rangeName
                (Some (RooRealIntegral this [x] nset cfg rangeName None)))
       \<and> (cacheParamInt this = None \<longrightarrow>
            createIntegral env host this iset nset cfg rangeName =
              Inr (Some (RooRealIntegral (RooRealIntegral this [x] nset cfg rangeName None) [y] None
                           cfg rangeName (Some (RooRealIntegral this [x] nset cfg rangeName None)))))
       \<and> findInnerMostIntegration env' iset rangeName = []
       \<and> createIntegral env' host this iset nset cfg rangeName = Inr None"
proof -
  note inner = inner_x_of_y[OF xy x_param x_of_y x_not_self y_fixed order]
  have ne: "iset \<noteq> []" using order by auto
  let ?inner = "RooRealIntegral this [x] nset cfg rangeName None"
  let ?outer = "RooRealIntegral ?inner [y] None cfg rangeName (Some ?inner)"
  have l3: "integrationLoop env cfg rangeName [] None ?outer (Some ?outer) = (False, Some ?outer)"
    by (subst integrationLoop.simps) simp
  have l2: "integrationLoop env cfg rangeName [y] None ?inner (Some ?inner) = (False, Some ?outer)"
    by (subst integrationLoop.simps) (simp add: inner(3) Let_def remove_all_def l3)
  have l1: "integrationLoop env cfg rangeName iset nset this None = (False, Some ?outer)"
    using ne by (subst integrationLoop.simps) (simp add: inner(1,2) Let_def l2)
  have ok: "createIntegral env host this iset nset cfg rangeName = afterBurner host this ?outer"
    using ne by (simp add: createIntegral_single[OF single] createIntObj_def l1)
  have "set iset = {x, y}" using order by auto
  note circ = inner_circular[OF cx_param cx_of_y cy_param cy_of_x this]
  have c1: "integrationLoop env' cfg rangeName iset nset this None = (True, None)"
    using ne by (subst integrationLoop.simps) (simp add: circ Let_def)
  have bad: "createIntegral env' host this iset nset cfg rangeName = Inr None"
    using ne by (simp add: createIntegral_single[OF single] createIntObj_def c1)
  have "cacheParamInt this = None \<longrightarrow> afterBurner host this ?outer = Inr (Some ?outer)"
    by (simp add: afterBurner_def)
  with l1 ok circ bad show ?thesis by simp
qed

text \<open>
  Claim C3 at a failing input. The integrand \<open>f\<close> carries the attribute \<open>CACHEPARAMINT\<close>
  with the value \<open>a\<close>, as \<open>setParameterizeIntegral\<close> sets it, and \<open>a\<close> is a variable of the
  integral; \<open>y\<close> has a fixed range and the bounds of \<open>x\<close> are functions of \<open>y\<close>. The loop
  builds the integral over \<open>x\<close> nested in the integral over \<open>y\<close> and reports no error, but
  \<open>createIntegral\<close> over \<open>{x, y}\<close> does not return it: the after-burner dereferences the
  pointer that it has moved from. For the same integrand without the attribute the
  nested integral is returned, and with circular ranges the result is the null pointer,
  with or without the attribute.
\<close>

theorem createIntegral_recursive_ranges_cache_failure:
  "createIntegral env_x_of_y host_caching (Integrand ''f'' (Some ''a'')) [''x'', ''y''] None None None
     = Inl NullPointerDereference
   \<and> integrationLoop env_x_of_y None None [''x'', ''y''] None (Integrand ''f'' (Some ''a'')) None =
       (False,
        Some (RooRealIntegral
                (RooRealIntegral (Integrand ''f'' (Some ''a'')) [''x''] None None None None)
                [''y''] None None None
                (Some (RooRealIntegral (Integrand ''f'' (Some ''a'')) [''x''] None None None None))))
   \<and> createIntegral env_x_of_y host_caching (Integrand ''f'' None) [''x'', ''y''] None None None =
       Inr (Some (RooRealIntegral (RooRealIntegral (Integrand ''f'' None) [''x''] None None None None)
                    [''y''] None None None
                    (Some (RooRealIntegral (Integrand ''f'' None) [''x''] None None None None))))
   \<and> createIntegral env_circular host_caching (Integrand ''f'' (Some ''a'')) [''x'', ''y''] None None
       None = Inr None
   \<and> createIntegral env_circular host_caching (Integrand ''f'' None) [''x'', ''y''] None None None
       = Inr None"
proof -
  have h: "singleRange None" "[''x'', ''y''] = [''x'', ''y''] \<or> [''x'', ''y''] = [''y'', ''x'']"
    "''x'' \<noteq> ''y''"
    "hasParamRange env_x_of_y None ''x''" "''y'' \<in> set (boundLeaves env_x_of_y None ''x'')"
    "''x'' \<notin> set (boundLeaves env_x_of_y None ''x'')" "\<not> hasParamRange env_x_of_y None ''y''"
    "hasParamRange env_circular None ''x''" "''y'' \<in> set (boundLeaves env_circular None ''x'')"
    "hasParamRange env_circular None ''y''" "''x'' \<in> set (boundLeaves env_circular None ''y'')"
    by (simp_all add: singleRange_def hasParamRange_def boundLeaves_def env_x_of_y_def
        env_circular_def paramOn_def fixedBinning_def)
  note a = createIntegral_nested_or_null[OF h, of None None "Integrand ''f'' (Some ''a'')"
             host_caching]
  note b = createIntegral_nested_or_null[OF h, of None None "Integrand ''f'' None" host_caching]
  from a b show ?thesis
    by (simp add: afterBurner_def host_caching_def)
qed

section \<open>Properties of the batch evaluation\<close>

lemma setCachedValue_overwrite:
  "setCachedValue v False (setCachedValue v' False a) = setCachedValue v False a"
  by (simp add: setCachedValue_def)

lemma setOperMode_idem: "setOperMode m (setOperMode m a) = setOperMode m a"
  by (simp add: setOperMode_def)

lemma collectServers_store:
  "collectServers ctx servers st = (srv, st1) \<Longrightarrow>
     st1 = forcedStore ctx servers st
     \<and> server ` set srv = {s \<in> set servers. ctx s \<noteq> []}
     \<and> (\<forall>sd\<in>set srv. batch sd = ctx (server sd))"
proof (induction servers arbitrary: st srv st1)
  case Nil
  then show ?case by (auto simp: forcedStore_def)
next
  case (Cons s ss)
  show ?case
  proof (cases "ctx s = []")
    case True
    with Cons.prems have "collectServers ctx ss st = (srv, st1)" by simp
    from Cons.IH[OF this] True show ?thesis
      by (auto simp: forcedStore_def)
  next
    case False
    let ?st1 = "st(s := setOperMode AClean (st s))"
    obtain rest st2 where r: "collectServers ctx ss ?st1 = (rest, st2)"
      by (cases "collectServers ctx ss ?st1") auto
    from Cons.prems False r obtain sd where
      srv: "srv = sd # rest" and sd: "server sd = s" "batch sd = ctx s" and st: "st1 = st2"
      by (auto simp: Let_def)
    from Cons.IH[OF r] have
      a: "st2 = forcedStore ctx ss ?st1" and
      b: "server ` set rest = {s \<in> set ss. ctx s \<noteq> []}" and
      c: "\<forall>sd\<in>set rest. batch sd = ctx (server sd)" by blast+
    have "forcedStore ctx ss ?st1 = forcedStore ctx (s # ss) st"
      using False by (auto simp: forcedStore_def fun_eq_iff setOperMode_idem)
    with a b c srv sd st False show ?thesis by auto
  qed
qed

lemma collectServers_snapshots:
  "collectServers ctx servers st = (srv, st1) \<Longrightarrow> distinct servers \<Longrightarrow>
     srv = map (\<lambda>s. snapshotOf s (ctx s) (st s)) (filter (\<lambda>s. ctx s \<noteq> []) servers)"
proof (induction servers arbitrary: st srv st1)
  case Nil
  then show ?case by simp
next
  case (Cons s ss)
  show ?case
  proof (cases "ctx s = []")
    case True
    with Cons.prems have "collectServers ctx ss st = (srv, st1)" by simp
    from Cons.IH[OF this] Cons.prems(2) True show ?thesis by simp
  next
    case False
    let ?st1 = "st(s := setOperMode AClean (st s))"
    obtain rest st2 where r: "collectServers ctx ss ?st1 = (rest, st2)"
      by (cases "collectServers ctx ss ?st1") auto
    from Cons.prems(1) False r have
      srv: "srv = snapshotOf s (ctx s) (st s) # rest"
      by (auto simp: Let_def snapshotOf_def setOperMode_def)
    from Cons.IH[OF r] Cons.prems(2) have
      "rest = map (\<lambda>t. snapshotOf t (ctx t) (?st1 t)) (filter (\<lambda>s. ctx s \<noteq> []) ss)" by simp
    also have "\<dots> = map (\<lambda>t. snapshotOf t (ctx t) (st t)) (filter (\<lambda>s. ctx s \<noteq> []) ss)"
      using Cons.prems(2) by (intro map_cong) auto
    finally show ?thesis using srv False by simp
  qed
qed

lemma loadEvent_pointwise:
  "\<forall>sd\<in>set srv. batch sd = ctx (server sd) \<Longrightarrow>
   loadEvent i srv st =
     (\<lambda>s. if s \<in> server ` set srv
          then setCachedValue (ctx s ! min i (length (ctx s) - 1)) False (st s) else st s)"
proof (induction srv arbitrary: st)
  case Nil
  then show ?case by (simp add: loadEvent_def)
next
  case (Cons sd srv)
  have "loadEvent i (sd # srv) st = loadEvent i srv (loadServer i sd st)"
    by (simp add: loadEvent_def)
  also have "\<dots> = (\<lambda>s. if s \<in> server ` set srv
          then setCachedValue (ctx s ! min i (length (ctx s) - 1)) False (loadServer i sd st s)
          else loadServer i sd st s)"
    using Cons by simp
  also have "\<dots> = (\<lambda>s. if s \<in> server ` set (sd # srv)
          then setCachedValue (ctx s ! min i (length (ctx s) - 1)) False (st s) else st s)"
    using Cons.prems by (auto simp: fun_eq_iff loadServer_def setCachedValue_overwrite)
  finally show ?case .
qed

lemma loadEvent_loadEvent:
  "\<forall>sd\<in>set srv. batch sd = ctx (server sd) \<Longrightarrow>
   loadEvent i srv (loadEvent j srv st) = loadEvent i srv st"
  by (simp add: loadEvent_pointwise[where ctx = ctx] fun_eq_iff setCachedValue_overwrite)

lemma loadEvent_forced:
  assumes "collectServers ctx servers st = (srv, st1)"
  shows "loadEvent i srv st1 = spec_event_store ctx servers i st"
proof -
  from collectServers_store[OF assms] have
    a: "st1 = forcedStore ctx servers st" and
    b: "server ` set srv = {s \<in> set servers. ctx s \<noteq> []}" and
    c: "\<forall>sd\<in>set srv. batch sd = ctx (server sd)" by auto
  show ?thesis
    unfolding loadEvent_pointwise[OF c] b a
    by (auto simp: spec_event_store_def forcedStore_def fun_eq_iff)
qed

lemma eventLoop_outputs:
  assumes c: "\<forall>sd\<in>set srv. batch sd = ctx (server sd)"
    and st: "st = st0 \<or> (\<exists>j. st = loadEvent j srv st0)"
    and ok: "\<forall>j. i \<le> j \<and> j < i + k \<longrightarrow> (\<exists>v. evaluate this (loadEvent j srv st0) = Inr v)"
    and len: "i + k \<le> length out"
  shows "\<exists>out' st'. eventLoop this srv i k out st = (None, out', st')
           \<and> length out' = length out
           \<and> (\<forall>j. i \<le> j \<and> j < i + k \<longrightarrow> evaluate this (loadEvent j srv st0) = Inr (out' ! j))
           \<and> (\<forall>j. j < i \<or> i + k \<le> j \<longrightarrow> out' ! j = out ! j)"
  using st ok len
proof (induction k arbitrary: i out st)
  case 0
  then show ?case by auto
next
  case (Suc k)
  have ld: "loadEvent i srv st = loadEvent i srv st0"
    using Suc.prems(1) loadEvent_loadEvent[OF c] by auto
  have "i \<le> i \<and> i < i + Suc k" by simp
  with Suc.prems(2) obtain v where v: "evaluate this (loadEvent i srv st0) = Inr v"
    by blast
  have step: "eventLoop this srv i (Suc k) out st =
          eventLoop this srv (Suc i) k (out[i := v]) (loadEvent i srv st0)"
    by (simp add: Let_def ld v)
  have "\<exists>out' st'. eventLoop this srv (Suc i) k (out[i := v]) (loadEvent i srv st0) = (None, out', st')
           \<and> length out' = length (out[i := v])
           \<and> (\<forall>j. Suc i \<le> j \<and> j < Suc i + k \<longrightarrow> evaluate this (loadEvent j srv st0) = Inr (out' ! j))
           \<and> (\<forall>j. j < Suc i \<or> Suc i + k \<le> j \<longrightarrow> out' ! j = out[i := v] ! j)"
    using Suc.prems by (intro Suc.IH) auto
  then obtain out' st' where
    r: "eventLoop this srv (Suc i) k (out[i := v]) (loadEvent i srv st0) = (None, out', st')"
    and l: "length out' = length out"
    and e: "\<forall>j. Suc i \<le> j \<and> j < Suc i + k \<longrightarrow> evaluate this (loadEvent j srv st0) = Inr (out' ! j)"
    and u: "\<forall>j. j < Suc i \<or> Suc i + k \<le> j \<longrightarrow> out' ! j = out[i := v] ! j"
    by auto
  have "out' ! i = v" using u Suc.prems(3) by simp
  with v e have e': "\<forall>j. i \<le> j \<and> j < i + Suc k \<longrightarrow> evaluate this (loadEvent j srv st0) = Inr (out' ! j)"
    by (metis Suc_leI add_Suc_right add_Suc le_neq_implies_less)
  have u': "\<forall>j. j < i \<or> i + Suc k \<le> j \<longrightarrow> out' ! j = out ! j"
    using u by auto
  from step r l e' u' show ?case by auto
qed

lemma touchedOnly_refl: "touchedOnly srv st st"
  by (simp add: touchedOnly_def sameUpTo_def)

lemma sameUpTo_setCachedValue: "sameUpTo a b \<Longrightarrow> sameUpTo (setCachedValue v n a) b"
  by (auto simp: sameUpTo_def setCachedValue_def Let_def)

lemma sameUpTo_setOperMode: "sameUpTo (setOperMode m a) a"
  by (auto simp: sameUpTo_def setOperMode_def)

lemma touchedOnly_loadServer:
  "touchedOnly srv st0 st \<Longrightarrow> sd \<in> set srv \<Longrightarrow> touchedOnly srv st0 (loadServer i sd st)"
  by (auto simp: touchedOnly_def loadServer_def sameUpTo_setCachedValue)

lemma touchedOnly_fold_loadServer:
  "touchedOnly srv st0 st \<Longrightarrow> set sds \<subseteq> set srv \<Longrightarrow>
   touchedOnly srv st0 (fold (loadServer i) sds st)"
  by (induction sds arbitrary: st) (auto simp: touchedOnly_loadServer)

lemma touchedOnly_loadEvent:
  "touchedOnly srv st0 st \<Longrightarrow> touchedOnly srv st0 (loadEvent i srv st)"
  unfolding loadEvent_def by (rule touchedOnly_fold_loadServer) auto

lemma touchedOnly_eventLoop:
  "touchedOnly srv st0 st \<Longrightarrow> eventLoop this srv i k out st = (exc, out', st') \<Longrightarrow>
   touchedOnly srv st0 st'"
proof (induction k arbitrary: i out st)
  case 0
  then show ?case by simp
next
  case (Suc k)
  have t: "touchedOnly srv st0 (loadEvent i srv st)"
    using Suc.prems(1) by (rule touchedOnly_loadEvent)
  show ?case
  proof (cases "evaluate this (loadEvent i srv st)")
    case (Inl e)
    with Suc.prems(2) have "st' = loadEvent i srv st" by (simp add: Let_def)
    with t show ?thesis by simp
  next
    case (Inr v)
    with Suc.prems(2) have
      "eventLoop this srv (Suc i) k (out[i := v]) (loadEvent i srv st) = (exc, out', st')"
      by (simp add: Let_def)
    from Suc.IH[OF t this] show ?thesis .
  qed
qed

lemma toIndex_of_int: "toIndex (Fin (of_int n)) = n"
  by (simp add: toIndex_def)

lemma restoreServer_snapshot:
  assumes "sameUpTo (st s) a"
  shows "restoreServer (snapshotOf s b a) st = st(s := a)"
  using assms
  by (auto simp: restoreServer_def snapshotOf_def setCachedValue_def setOperMode_def
      sameUpTo_def Let_def toIndex_of_int fun_eq_iff intro!: ArgState.equality)

lemma restoreState_snapshots:
  assumes "distinct ss" and "\<forall>s\<in>set ss. sameUpTo (st s) (st0 s)"
  shows "restoreState (map (\<lambda>s. snapshotOf s (ctx s) (st0 s)) ss) st =
           (\<lambda>s. if s \<in> set ss then st0 s else st s)"
  using assms
proof (induction ss arbitrary: st)
  case Nil
  then show ?case by (simp add: restoreState_def)
next
  case (Cons s ss)
  have r: "restoreServer (snapshotOf s (ctx s) (st0 s)) st = st(s := st0 s)"
    using Cons.prems(2) by (intro restoreServer_snapshot) simp
  have "restoreState (map (\<lambda>s. snapshotOf s (ctx s) (st0 s)) (s # ss)) st =
        restoreState (map (\<lambda>s. snapshotOf s (ctx s) (st0 s)) ss) (st(s := st0 s))"
    by (simp add: restoreState_def r)
  also have "\<dots> = (\<lambda>t. if t \<in> set ss then st0 t else (st(s := st0 s)) t)"
    using Cons.prems by (intro Cons.IH) auto
  finally show ?case by (auto simp: fun_eq_iff)
qed

text \<open>
  Claim C5. Suppose the scalar \<open>evaluate()\<close> returns a value at each of the per-event
  states, where the per-event state of index \<open>i\<close> has every server that has a buffer in
  \<open>AClean\<close> mode with its cached value set to \<open>buffer[min(i, buffer.length-1)]\<close>. Then
  \<open>doEval\<close> ends without an exception, the output buffer keeps its length, and at every
  index \<open>i\<close> it holds the value that \<open>evaluate()\<close> returns at the per-event state of \<open>i\<close>.
  A buffer of length one is read at its only element for every index.
\<close>

theorem doEval_outputs_are_scalar_evaluations:
  assumes "\<forall>j<length output. \<exists>v. evaluate this (spec_event_store ctx servers j st) = Inr v"
  shows "fst (doEval this ctx servers output st) = None
       \<and> length (fst (snd (doEval this ctx servers output st))) = length output
       \<and> (\<forall>i<length output.
            evaluate this (spec_event_store ctx servers i st)
              = Inr (fst (snd (doEval this ctx servers output st)) ! i))
       \<and> (\<forall>s\<in>set servers. length (ctx s) = 1 \<longrightarrow>
            (\<forall>i. spec_event_store ctx servers i st s
                   = setCachedValue (ctx s ! 0) False (setOperMode AClean (st s))))"
proof -
  obtain srv st1 where cs: "collectServers ctx servers st = (srv, st1)"
    by (cases "collectServers ctx servers st") auto
  from collectServers_store[OF cs] have
    c: "\<forall>sd\<in>set srv. batch sd = ctx (server sd)" by blast
  have ev: "\<And>j. loadEvent j srv st1 = spec_event_store ctx servers j st"
    using loadEvent_forced[OF cs] .
  have "\<exists>out' st'. eventLoop this srv 0 (length output) output st1 = (None, out', st')
           \<and> length out' = length output
           \<and> (\<forall>j. 0 \<le> j \<and> j < 0 + length output \<longrightarrow>
                 evaluate this (loadEvent j srv st1) = Inr (out' ! j))
           \<and> (\<forall>j. j < 0 \<or> 0 + length output \<le> j \<longrightarrow> out' ! j = output ! j)"
    using assms by (intro eventLoop_outputs[OF c]) (auto simp: ev)
  then obtain out' st' where
    el: "eventLoop this srv 0 (length output) output st1 = (None, out', st')"
    and l: "length out' = length output"
    and e: "\<forall>j<length output. evaluate this (spec_event_store ctx servers j st) = Inr (out' ! j)"
    by (auto simp: ev)
  have bc: "\<forall>s\<in>set servers. length (ctx s) = 1 \<longrightarrow>
            (\<forall>i. spec_event_store ctx servers i st s
                   = setCachedValue (ctx s ! 0) False (setOperMode AClean (st s)))"
    by (auto simp: spec_event_store_def)
  show ?thesis using l e bc by (simp add: doEval_def cs el)
qed

theorem doEval_outputs_are_scalar_evaluations_witness:
  "fst (doEval sum_xy batches_xy [''x'', ''y'', ''z''] [NaN, NaN, NaN] (\<lambda>s. idle)) = None
   \<and> length (fst (snd (doEval sum_xy batches_xy [''x'', ''y'', ''z''] [NaN, NaN, NaN] (\<lambda>s. idle)))) = 3
   \<and> fst (snd (doEval sum_xy batches_xy [''x'', ''y'', ''z''] [NaN, NaN, NaN] (\<lambda>s. idle))) ! 2 = Fin 13"
proof -
  let ?out = "fst (snd (doEval sum_xy batches_xy [''x'', ''y'', ''z''] [NaN, NaN, NaN] (\<lambda>s. idle)))"
  have p: "\<forall>j<length [NaN, NaN, NaN].
             \<exists>v. evaluate sum_xy (spec_event_store batches_xy [''x'', ''y'', ''z''] j (\<lambda>s. idle)) = Inr v"
    by (simp add: sum_xy_def)
  note t = doEval_outputs_are_scalar_evaluations[OF p]
  from t have "\<forall>i<length [NaN, NaN, NaN].
      evaluate sum_xy (spec_event_store batches_xy [''x'', ''y'', ''z''] i (\<lambda>s. idle)) = Inr (?out ! i)"
    by blast
  then have "evaluate sum_xy (spec_event_store batches_xy [''x'', ''y'', ''z''] 2 (\<lambda>s. idle))
               = Inr (?out ! 2)"
    by simp
  then have "?out ! 2 = Fin 13"
    by (simp add: sum_xy_def spec_event_store_def batches_xy_def setCachedValue_def
        setOperMode_def idle_def)
  with t show ?thesis by simp
qed

text \<open>
  Claim C6. The servers of a node are name-unique. Whatever \<open>evaluate()\<close> does at each
  event, return a value or throw, \<open>doEval\<close> leaves the store of server states as it found
  it: every server that had a buffer has again its recorded cached value (or category
  index), operating mode, value-dirty flag and shape-dirty flag, and no other server is
  touched.
\<close>

theorem doEval_restores_servers:
  assumes "distinct servers"
  shows "snd (snd (doEval this ctx servers output st)) = st"
proof -
  obtain srv st1 where cs: "collectServers ctx servers st = (srv, st1)"
    by (cases "collectServers ctx servers st") auto
  obtain exc out' st2 where el: "eventLoop this srv 0 (length output) output st1 = (exc, out', st2)"
    by (cases "eventLoop this srv 0 (length output) output st1") auto
  from collectServers_store[OF cs] have
    forced: "st1 = forcedStore ctx servers st" and
    names: "server ` set srv = {s \<in> set servers. ctx s \<noteq> []}" by blast+
  have snaps: "srv = map (\<lambda>s. snapshotOf s (ctx s) (st s)) (filter (\<lambda>s. ctx s \<noteq> []) servers)"
    using collectServers_snapshots[OF cs assms] .
  have t2: "touchedOnly srv st1 st2"
    using touchedOnly_eventLoop[OF touchedOnly_refl el] .
  have up: "\<forall>s. sameUpTo (st2 s) (st s)"
    using t2 unfolding forced
    by (auto simp: touchedOnly_def forcedStore_def sameUpTo_def setOperMode_def split: if_splits)
  have untouched: "\<forall>s. s \<notin> set (filter (\<lambda>s. ctx s \<noteq> []) servers) \<longrightarrow> st2 s = st s"
    using t2 unfolding forced
    by (auto simp: touchedOnly_def forcedStore_def names)
  have "restoreState srv st2 =
          (\<lambda>s. if s \<in> set (filter (\<lambda>s. ctx s \<noteq> []) servers) then st s else st2 s)"
    unfolding snaps using assms up by (intro restoreState_snapshots) auto
  also have "\<dots> = st" using untouched by (auto simp: fun_eq_iff)
  finally show ?thesis by (simp add: doEval_def cs el)
qed

theorem doEval_restores_servers_witness:
  "distinct [''x'', ''y'']
   \<and> fst (doEval failing_at_2 batches_xy [''x'', ''y''] [NaN, NaN, NaN] (\<lambda>s. idle))
       = Some (RuntimeError ''domain'')
   \<and> snd (snd (doEval failing_at_2 batches_xy [''x'', ''y''] [NaN, NaN, NaN] (\<lambda>s. idle)))
       = (\<lambda>s. idle)"
  using doEval_restores_servers
          [of "[''x'', ''y'']" failing_at_2 batches_xy "[NaN, NaN, NaN]" "\<lambda>s. idle"]
  by (simp add: doEval_def failing_at_2_def batches_xy_def Let_def loadEvent_def loadServer_def
      setCachedValue_def setOperMode_def idle_def)

text \<open>
  Name-uniqueness of the server list is needed: were a server listed twice, its second
  record would be taken in \<open>AClean\<close> mode and restored last.
\<close>

lemma doEval_duplicate_server_left_AClean:
  "operMode (snd (snd (doEval sum_xy batches_xy [''x'', ''x''] [NaN] (\<lambda>s. idle))) ''x'') = AClean"
  by (simp add: doEval_def sum_xy_def batches_xy_def Let_def loadEvent_def loadServer_def
      setCachedValue_def setOperMode_def idle_def restoreState_def restoreServer_def)

section \<open>Properties of the caching protocol\<close>

lemma logEvalError_frame:
  "hideOffset (logEvalError this m s st g) = hideOffset g"
  "inhibitDirty (logEvalError this m s st g) = inhibitDirty g"
  "evaluateCalls (logEvalError this m s st g) = evaluateCalls g"
  "mode (evalErrorData (logEvalError this m s st g)) = mode (evalErrorData g)"
  by (simp_all add: logEvalError_def Let_def)

lemma loggedGlobals_frame:
  "hideOffset (loggedGlobals this v st g) = hideOffset g"
  "inhibitDirty (loggedGlobals this v st g) = inhibitDirty g"
  "evaluateCalls (loggedGlobals this v st g) = evaluateCalls g"
  "mode (evalErrorData (loggedGlobals this v st g)) = mode (evalErrorData g)"
  by (simp_all add: loggedGlobals_def Let_def logEvalError_frame)

lemma traceEval_Inr:
  "evaluate this (store w) = Inr v \<Longrightarrow>
   traceEval this w =
     (Inr v, w\<lparr>glob := loggedGlobals this v (store w)
                          ((glob w)\<lparr>evaluateCalls := evaluateCalls (glob w) + 1\<rparr>)\<rparr>)"
  by (simp add: traceEval_def loggedGlobals_def Let_def)

lemma traceEval_Inl:
  "evaluate this (store w) = Inl e \<Longrightarrow>
   traceEval this w = (Inl e, w\<lparr>glob := (glob w)\<lparr>evaluateCalls := evaluateCalls (glob w) + 1\<rparr>\<rparr>)"
  by (simp add: traceEval_def Let_def)

lemma traceEval_all:
  assumes "traceEval this w = (r, w')"
  shows "self w' = self w \<and> store w' = store w
      \<and> hideOffset (glob w') = hideOffset (glob w)
      \<and> inhibitDirty (glob w') = inhibitDirty (glob w)
      \<and> evaluateCalls (glob w') = evaluateCalls (glob w) + 1
      \<and> r = evaluate this (store w)"
proof (cases "evaluate this (store w)")
  case (Inl e)
  from assms traceEval_Inl[OF Inl] have
    "r = Inl e" "w' = w\<lparr>glob := (glob w)\<lparr>evaluateCalls := evaluateCalls (glob w) + 1\<rparr>\<rparr>"
    by simp_all
  with Inl show ?thesis by simp
next
  case (Inr v)
  from assms traceEval_Inr[OF Inr] have
    "r = Inr v" "w' = w\<lparr>glob := loggedGlobals this v (store w)
                        ((glob w)\<lparr>evaluateCalls := evaluateCalls (glob w) + 1\<rparr>)\<rparr>"
    by simp_all
  with Inr show ?thesis by (simp add: loggedGlobals_frame)
qed

lemma traceEval_frame:
  assumes "traceEval this w = (r, w')"
  shows "self w' = self w" and "store w' = store w"
    and "hideOffset (glob w') = hideOffset (glob w)"
    and "inhibitDirty (glob w') = inhibitDirty (glob w)"
    and "evaluateCalls (glob w') = evaluateCalls (glob w) + 1"
    and "r = evaluate this (store w)"
  using traceEval_all[OF assms] by blast+

lemma afterNormSet_frame:
  "operMode (afterNormSet nset a) = operMode a"
  "valueDirty (afterNormSet nset a) = valueDirty a"
  "cachedValue (afterNormSet nset a) = cachedValue a"
  by (simp_all add: afterNormSet_def setProxyNormSet_def split: option.splits)

lemma afterNormSet_idem: "afterNormSet nset (afterNormSet nset a) = afterNormSet nset a"
  by (simp add: afterNormSet_def setProxyNormSet_def split: option.splits)

lemma getValV_clean:
  assumes "\<not> needsEval (self w)"
  shows "getValV this nset w =
           (Inr (returnedValue this (w\<lparr>self := afterNormSet nset (self w)\<rparr>)),
            w\<lparr>self := afterNormSet nset (self w)\<rparr>)"
  using assms
  by (cases "operMode (self w)")
     (auto simp: getValV_def needsEval_def isValueDirtyAndClear_def afterNormSet_def
        setProxyNormSet_def Let_def split: option.splits)

lemma getValV_dirty:
  assumes "needsEval (self w)"
  shows "getValV this nset w =
     (case traceEval this (w\<lparr>self := cleared (afterNormSet nset (self w))\<rparr>) of
        (Inl e, w3) \<Rightarrow> (Inl e, w3)
      | (Inr v, w3) \<Rightarrow> (Inr (returnedValue this (w3\<lparr>self := (self w3)\<lparr>cachedValue := v\<rparr>\<rparr>)),
                        w3\<lparr>self := (self w3)\<lparr>cachedValue := v\<rparr>\<rparr>))"
  using assms
  by (cases "operMode (self w)")
     (auto simp: getValV_def needsEval_def isValueDirtyAndClear_def afterNormSet_def cleared_def
        setProxyNormSet_def Let_def split: option.splits prod.splits sum.splits)

lemmas run_defs = getValV_def traceEval_def logEvalError_def isValueDirtyAndClear_def
  returnedValue_def setProxyNormSet_def constNode_def nodeState_def globals0_def world0_def
  Let_def

text \<open>
  Claim C7, as the model has it. Let a first call of \<open>getValV\<close> return a value. A second
  call with the same normalization set, with nothing changed in between, returns the same
  value. If the node is not in \<open>ADirty\<close> mode, the second call does not call
  \<open>evaluate()\<close>, and the two calls together call it at most once. If the node is in
  \<open>ADirty\<close> mode, each of the two calls evaluates.
\<close>

theorem getValV_second_call_serves_cache:
  assumes first: "getValV this nset w = (Inr v1, w1)"
  shows "fst (getValV this nset w1) = Inr v1
       \<and> (operMode (self w) \<noteq> ADirty \<longrightarrow>
            evaluateCalls (glob (snd (getValV this nset w1))) = evaluateCalls (glob w1)
            \<and> evaluateCalls (glob w1) \<le> evaluateCalls (glob w) + 1)
       \<and> (operMode (self w) = ADirty \<longrightarrow>
            evaluateCalls (glob (snd (getValV this nset w1))) = evaluateCalls (glob w) + 2)"
proof (cases "needsEval (self w)")
  case False
  from first getValV_clean[OF False, of this nset] have
    v1: "v1 = returnedValue this (w\<lparr>self := afterNormSet nset (self w)\<rparr>)" and
    w1: "w1 = w\<lparr>self := afterNormSet nset (self w)\<rparr>" by auto
  have "\<not> needsEval (self w1)"
    using False by (simp add: w1 needsEval_def afterNormSet_frame)
  from getValV_clean[OF this] have
    "getValV this nset w1 = (Inr v1, w1)"
    by (simp add: w1 v1 afterNormSet_idem)
  moreover have "operMode (self w) \<noteq> ADirty" using False by (auto simp: needsEval_def)
  ultimately show ?thesis by (simp add: w1)
next
  case True
  let ?w0 = "w\<lparr>self := cleared (afterNormSet nset (self w))\<rparr>"
  obtain r w3 where t: "traceEval this ?w0 = (r, w3)"
    by (cases "traceEval this ?w0") auto
  note fr = traceEval_frame[OF t]
  from first getValV_dirty[OF True] t obtain v where
    r: "r = Inr v" and
    w1: "w1 = w3\<lparr>self := (self w3)\<lparr>cachedValue := v\<rparr>\<rparr>" and
    v1: "v1 = returnedValue this w1"
    by (cases r) auto
  have ev: "evaluate this (store w) = Inr v" using fr(6) r by simp
  have self1: "self w1 = (cleared (afterNormSet nset (self w)))\<lparr>cachedValue := v\<rparr>"
    by (simp add: w1 fr(1))
  show ?thesis
  proof (cases "operMode (self w) = ADirty")
    case False
    with True have auto_mode: "operMode (self w) = Auto" by (auto simp: needsEval_def)
    have "\<not> needsEval (self w1)"
      by (simp add: self1 needsEval_def cleared_def afterNormSet_frame auto_mode)
    from getValV_clean[OF this] have
      g2: "getValV this nset w1 =
            (Inr (returnedValue this (w1\<lparr>self := afterNormSet nset (self w1)\<rparr>)),
             w1\<lparr>self := afterNormSet nset (self w1)\<rparr>)" .
    have "returnedValue this (w1\<lparr>self := afterNormSet nset (self w1)\<rparr>) = v1"
      by (simp add: v1 returnedValue_def afterNormSet_frame)
    moreover have "evaluateCalls (glob w1) = evaluateCalls (glob w) + 1"
      by (simp add: w1 fr(5))
    ultimately show ?thesis using False g2 by simp
  next
    case ADirty: True
    have ne: "needsEval (self w1)"
      by (simp add: self1 needsEval_def cleared_def afterNormSet_frame ADirty)
    let ?w1' = "w1\<lparr>self := cleared (afterNormSet nset (self w1))\<rparr>"
    have st1: "store ?w1' = store w" by (simp add: w1 fr(2))
    have t2: "traceEval this ?w1' =
               (Inr v, ?w1'\<lparr>glob := loggedGlobals this v (store ?w1')
                          ((glob ?w1')\<lparr>evaluateCalls := evaluateCalls (glob ?w1') + 1\<rparr>)\<rparr>)"
      by (rule traceEval_Inr) (simp add: st1 ev)
    let ?w2 = "?w1'\<lparr>glob := loggedGlobals this v (store ?w1')
                          ((glob ?w1')\<lparr>evaluateCalls := evaluateCalls (glob ?w1') + 1\<rparr>)\<rparr>"
    have g2: "getValV this nset w1 =
           (Inr (returnedValue this (?w2\<lparr>self := (self ?w2)\<lparr>cachedValue := v\<rparr>\<rparr>)),
            ?w2\<lparr>self := (self ?w2)\<lparr>cachedValue := v\<rparr>\<rparr>)"
      unfolding getValV_dirty[OF ne] t2 by simp
    have "returnedValue this (?w2\<lparr>self := (self ?w2)\<lparr>cachedValue := v\<rparr>\<rparr>) = v1"
      by (simp add: v1 returnedValue_def loggedGlobals_frame w1)
    moreover have "evaluateCalls (glob (?w2\<lparr>self := (self ?w2)\<lparr>cachedValue := v\<rparr>\<rparr>))
                     = evaluateCalls (glob w) + 2"
      by (simp add: loggedGlobals_frame w1 fr(5))
    ultimately show ?thesis using ADirty g2 by simp
  qed
qed

theorem getValV_second_call_serves_cache_witness:
  "fst (getValV (constNode (Fin 1) (Fin 0)) (Some 7)
          (snd (getValV (constNode (Fin 1) (Fin 0)) (Some 7)
             (world0 (nodeState (Fin 0) Auto True False) (globals0 PrintErrors True))))) = Inr (Fin 1)
   \<and> evaluateCalls (glob (snd (getValV (constNode (Fin 1) (Fin 0)) (Some 7)
          (snd (getValV (constNode (Fin 1) (Fin 0)) (Some 7)
             (world0 (nodeState (Fin 0) Auto True False) (globals0 PrintErrors True))))))) = 1"
proof -
  let ?n = "constNode (Fin 1) (Fin 0)"
  let ?w = "world0 (nodeState (Fin 0) Auto True False) (globals0 PrintErrors True)"
  have f: "getValV ?n (Some 7) ?w = (Inr (Fin 1), snd (getValV ?n (Some 7) ?w))"
    by (simp add: run_defs)
  have m: "operMode (self ?w) \<noteq> ADirty" by (simp add: world0_def nodeState_def)
  have c: "evaluateCalls (glob (snd (getValV ?n (Some 7) ?w))) = 1"
    by (simp add: run_defs)
  from getValV_second_call_serves_cache[OF f] m c show ?thesis by simp
qed

text \<open>
  Claim C7 as stated fails for a node in \<open>ADirty\<close> mode: two successive calls with no
  change in between call \<open>evaluate()\<close> twice.
\<close>

theorem getValV_ADirty_evaluates_twice:
  "fst (getValV (constNode (Fin 1) (Fin 0)) None
          (world0 (nodeState (Fin 0) ADirty False False) (globals0 PrintErrors True))) = Inr (Fin 1)
   \<and> evaluateCalls (glob (world0 (nodeState (Fin 0) ADirty False False) (globals0 PrintErrors True))) = 0
   \<and> evaluateCalls (glob (snd (getValV (constNode (Fin 1) (Fin 0)) None
        (snd (getValV (constNode (Fin 1) (Fin 0)) None
          (world0 (nodeState (Fin 0) ADirty False False) (globals0 PrintErrors True))))))) = 2"
  by (simp add: run_defs)





text \<open>
  Claim C9 at a failing input. The node has \<open>_fast\<close> set, a clean cached value 1 and
  \<open>offset()\<close> 1, with \<open>hideOffset\<close> on: \<open>getValV\<close> returns 2, the fast path returns 1, and
  \<open>_DEBUG_getVal\<close> returns 1 without an error, since \<open>(1 - 2) / 1\<close> is not above the
  tolerance. With \<open>offset()\<close> -1 the full value is 0, the deviation has the other sign
  and the same check throws the caching error.
\<close>

theorem DEBUG_getVal_misses_larger_recomputation:
  "fst (getValV (constNode (Fin 1) (Fin 1)) None
          (world0 (nodeState (Fin 1) Auto False True) (globals0 PrintErrors True))) = Inr (Fin 2)
   \<and> fst (DEBUG_getVal (constNode (Fin 1) (Fin 1)) None
          (world0 (nodeState (Fin 1) Auto False True) (globals0 PrintErrors True))) = Inr (Fin 1)
   \<and> fst (getValV (constNode (Fin 1) (Fin (- 1))) None
          (world0 (nodeState (Fin 1) Auto False True) (globals0 PrintErrors True))) = Inr (Fin 0)
   \<and> fst (DEBUG_getVal (constNode (Fin 1) (Fin (- 1))) None
          (world0 (nodeState (Fin 1) Auto False True) (globals0 PrintErrors True)))
       = Inl (CachingError ''Scalar computation wrong here'')"
  by (simp add: DEBUG_getVal_def run_defs dsub_def)

text \<open>
  In general the check is one-sided: for a positive fast value, no recomputed value that
  is larger is ever reported.
\<close>

lemma DEBUG_getVal_one_sided:
  assumes g: "getValV this nset w = (Inr (Fin f), w1)"
    and fa: "fast (self w1)" and inh: "\<not> inhibitDirty (glob w1)"
    and cv: "cachedValue (self w1) = Fin r" and pos: "0 < r" and le: "r \<le> f"
  shows "DEBUG_getVal this nset w = (Inr (Fin r), w1)"
proof -
  have q: "(r - f) / r \<le> 0" using pos le by (simp add: divide_le_0_iff)
  have dv: "ddiv (dsub (Fin r) (Fin f)) (Fin r) = Fin ((r - f) / r)"
    using pos by (simp add: dsub_def)
  have ng: "\<not> dgt (Fin ((r - f) / r)) (Fin (1 / 10 ^ 9))"
  proof -
    have "(0::real) < 1 / 10 ^ 9" by simp
    with q have "\<not> 1 / 10 ^ 9 < (r - f) / r" by linarith
    then show ?thesis unfolding dgt.simps .
  qed
  have n: "\<not> dgt (ddiv (dsub (Fin r) (Fin f)) (Fin r)) (Fin (1 / 10 ^ 9))"
    unfolding dv by (rule ng)
  have r0: "Fin r \<noteq> Fin 0" using pos by simp
  show ?thesis
    unfolding DEBUG_getVal_def Let_def g using fa inh cv n r0
    by (simp only: prod.case sum.case if_True if_False simp_thms isfinite.simps)
qed

section \<open>Properties of the linear error propagation\<close>

lemma scanFitParams_reaches_self:
  assumes "fitName p = pnName this"
    and "\<forall>q\<in>set pre. fitName q \<noteq> pnName this"
    and "\<forall>q\<in>set pre. \<forall>v. find (\<lambda>v. rvName v = fitName q) (allParamsInAbsReal this) = Some v
            \<longrightarrow> zeroError q \<or> \<not> diverged vals v q"
  shows "scanFitParams this vals (pre @ p # rest) acc = EarlyReturn (fitError p)"
  using assms(2,3)
proof (induction pre arbitrary: acc)
  case Nil
  then show ?case using assms(1) by simp
next
  case (Cons q pre)
  then show ?case by (auto simp: Let_def split: option.splits)
qed

lemma scanFitParams_params:
  assumes "\<forall>p\<in>set fps. fitName p \<noteq> pnName this"
    and "\<forall>p\<in>set fps. \<forall>v. \<not> zeroError p
            \<and> find (\<lambda>v. rvName v = fitName p) (allParamsInAbsReal this) = Some v
            \<longrightarrow> \<not> diverged vals v p"
  shows "scanFitParams this vals fps acc = ParamList (acc @ relevantParams this fps)"
  using assms
proof (induction fps arbitrary: acc)
  case Nil
  then show ?case by (simp add: relevantParams_def List.map_filter_simps)
next
  case (Cons p fps)
  then show ?case
    by (auto simp: Let_def relevantParams_def List.map_filter_simps split: option.splits)
qed

lemma variations_closed:
  "\<exists>s'. variations this V pl ivar (P, M, s) =
           (P @ map (\<lambda>(i, rrv). plusAt this V (paramValues s) i rrv) (List.enumerate ivar pl),
            M @ map (\<lambda>(i, rrv). minusAt this V (paramValues s) i rrv) (List.enumerate ivar pl),
            s')
         \<and> paramValues s' = paramValues s \<and> covReductions s' = covReductions s
         \<and> getValCalls s' = getValCalls s + 2 * length pl"
proof (induction pl arbitrary: ivar P M s)
  case Nil
  then show ?case by simp
next
  case (Cons rrv pl)
  let ?cen = "paramValues s (rvName rrv)"
  let ?err = "dsqrt (V ivar ivar)"
  let ?s1 = "(if \<not> inRange this rrv (dadd ?cen ?err) \<or> \<not> inRange this rrv (dsub ?cen ?err)
                then s\<lparr>clipWarnings := clipWarnings s @ [rvName rrv]\<rparr> else s)"
  let ?s2 = "setVal rrv (dmin (dadd ?cen ?err) (rvMax rrv)) ?s1"
  let ?s3 = "snd (getVal this ?s2)"
  let ?s4 = "setVal rrv (dmax (dsub ?cen ?err) (rvMin rrv)) ?s3"
  let ?s5 = "snd (getVal this ?s4)"
  let ?s6 = "setVal rrv ?cen ?s5"
  have p1: "paramValues ?s1 = paramValues s" by simp
  have p2: "paramValues ?s2 = (paramValues s)(rvName rrv := dmin (dadd ?cen ?err) (rvMax rrv))"
    by (simp add: setVal_def)
  have plus: "fst (getVal this ?s2) = plusAt this V (paramValues s) ivar rrv"
    by (simp add: getVal_def plusAt_def setVal_def dmin_def)
  have p4: "paramValues ?s4 = (paramValues s)(rvName rrv := dmax (dsub ?cen ?err) (rvMin rrv))"
    by (simp add: setVal_def getVal_def)
  have minus: "fst (getVal this ?s4) = minusAt this V (paramValues s) ivar rrv"
    by (simp add: getVal_def minusAt_def setVal_def dmax_def)
  have p6: "paramValues ?s6 = paramValues s"
    by (simp add: setVal_def getVal_def)
  have c6: "covReductions ?s6 = covReductions s" "getValCalls ?s6 = getValCalls s + 2"
    by (simp_all add: setVal_def getVal_def)
  have step: "variations this V (rrv # pl) ivar (P, M, s) =
          variations this V pl (Suc ivar)
            (P @ [plusAt this V (paramValues s) ivar rrv],
             M @ [minusAt this V (paramValues s) ivar rrv], ?s6)"
    by (subst variations.simps(2)) (simp only: Let_def case_prod_beta plus minus)
  from Cons.IH[of "Suc ivar" "P @ [plusAt this V (paramValues s) ivar rrv]"
        "M @ [minusAt this V (paramValues s) ivar rrv]" ?s6]
  obtain s' where
    r: "variations this V pl (Suc ivar)
          (P @ [plusAt this V (paramValues s) ivar rrv],
           M @ [minusAt this V (paramValues s) ivar rrv], ?s6) =
        ((P @ [plusAt this V (paramValues s) ivar rrv])
           @ map (\<lambda>(i, rrv). plusAt this V (paramValues ?s6) i rrv) (List.enumerate (Suc ivar) pl),
         (M @ [minusAt this V (paramValues s) ivar rrv])
           @ map (\<lambda>(i, rrv). minusAt this V (paramValues ?s6) i rrv) (List.enumerate (Suc ivar) pl),
         s')"
    and f: "paramValues s' = paramValues ?s6" "covReductions s' = covReductions ?s6"
           "getValCalls s' = getValCalls ?s6 + 2 * length pl"
    by blast
  show ?case
    unfolding step r using f p6 c6 by (simp add: p6)
qed

lemma dmul_commute: "dmul a b = dmul b a"
  by (cases a; cases b) (simp_all add: mult.commute)

lemma dmul_half: "dmul x (Fin (1 / 2)) = ddiv x (Fin 2)"
  by (cases x) simp_all

lemma fold_fillRow_apply:
  "fold (\<lambda>j C. C((i, j) := corrEntry V i j, (j, i) := corrEntry V i j)) [i..<m] C (a, b) =
     (if a = i \<and> i \<le> b \<and> b < m then corrEntry V i b
      else if b = i \<and> i \<le> a \<and> a < m then corrEntry V i a
      else C (a, b))"
proof (induction m)
  case 0
  then show ?case by simp
next
  case (Suc m)
  show ?case
  proof (cases "i \<le> m")
    case True
    then have "[i..<Suc m] = [i..<m] @ [m]" by simp
    then show ?thesis using Suc True by (auto simp: fold_append)
  next
    case False
    then show ?thesis by auto
  qed
qed

lemma fillRow_apply:
  "fillRow V n i C (a, b) =
     (if a = i \<and> i \<le> b \<and> b < n then corrEntry V i b
      else if b = i \<and> i \<le> a \<and> a < n then corrEntry V i a
      else C (a, b))"
  unfolding fillRow_def by (rule fold_fillRow_apply)

lemma fold_fillRows_apply:
  "m \<le> n \<Longrightarrow>
   fold (fillRow V n) [0..<m] (\<lambda>ij. Fin 0) (a, b) =
     (if a < n \<and> b < n \<and> min a b < m then corrEntry V (min a b) (max a b) else Fin 0)"
proof (induction m)
  case 0
  then show ?case by simp
next
  case (Suc m)
  then have IH: "fold (fillRow V n) [0..<m] (\<lambda>ij. Fin 0) (a, b) =
     (if a < n \<and> b < n \<and> min a b < m then corrEntry V (min a b) (max a b) else Fin 0)"
    by simp
  have "fold (fillRow V n) [0..<Suc m] (\<lambda>ij. Fin 0) (a, b)
          = fillRow V n m (fold (fillRow V n) [0..<m] (\<lambda>ij. Fin 0)) (a, b)"
    by (simp add: fold_append)
  also have "\<dots> = (if a < n \<and> b < n \<and> min a b < Suc m
                     then corrEntry V (min a b) (max a b) else Fin 0)"
    unfolding fillRow_apply IH using Suc.prems
    by (auto simp: min_def max_def)
  finally show ?case .
qed

lemma correlationMatrix_apply:
  assumes "\<forall>i j. V i j = V j i" and "a < n" and "b < n"
  shows "correlationMatrix V n (a, b) = corrEntry V a b"
proof -
  have m: "a < n \<and> b < n \<and> min a b < n" using assms(2,3) by (simp add: min_def)
  have "correlationMatrix V n (a, b) = corrEntry V (min a b) (max a b)"
    unfolding correlationMatrix_def fold_fillRows_apply[OF le_refl] using m
    by simp
  also have "\<dots> = corrEntry V a b"
  proof (cases "a \<le> b")
    case True
    then show ?thesis by (simp add: min_def max_def)
  next
    case False
    then have "corrEntry V (min a b) (max a b) = corrEntry V b a"
      by (simp add: min_def max_def)
    also have "\<dots> = corrEntry V a b"
      using assms(1) by (simp add: corrEntry_def dmul_commute[of "V b b"])
    finally show ?thesis .
  qed
  finally show ?thesis .
qed

lemma quadraticForm_cong:
  assumes "\<forall>i<length F. \<forall>j<length F. C (i, j) = C' (i, j)"
  shows "quadraticForm F C = quadraticForm F C'"
proof -
  have "map (\<lambda>i. dmul (F ! i) (dsum (map (\<lambda>j. dmul (C (i, j)) (F ! j)) [0..<length F])))
             [0..<length F]
      = map (\<lambda>i. dmul (F ! i) (dsum (map (\<lambda>j. dmul (C' (i, j)) (F ! j)) [0..<length F])))
             [0..<length F]"
  proof (rule map_cong[OF refl])
    fix i assume "i \<in> set [0..<length F]"
    then have i: "i < length F" by simp
    have "map (\<lambda>j. dmul (C (i, j)) (F ! j)) [0..<length F]
        = map (\<lambda>j. dmul (C' (i, j)) (F ! j)) [0..<length F]"
      using assms i by (intro map_cong[OF refl]) simp
    then show "dmul (F ! i) (dsum (map (\<lambda>j. dmul (C (i, j)) (F ! j)) [0..<length F]))
             = dmul (F ! i) (dsum (map (\<lambda>j. dmul (C' (i, j)) (F ! j)) [0..<length F]))"
      by (rule arg_cong[where f = "\<lambda>l. dmul (F ! i) (dsum l)"])
  qed
  then show ?thesis unfolding quadraticForm_def by (rule arg_cong[where f = dsum])
qed

lemma sqrt_hundredth: "sqrt (1 / 100) = 1 / 10"
  by (rule real_sqrt_unique) (simp_all add: power2_eq_square)

lemma sqrt_ten_thousandth: "sqrt (1 / 10000) = 1 / 100"
  by (rule real_sqrt_unique) (simp_all add: power2_eq_square)

lemma sqrt_nine_hundredths: "sqrt (9 / 100) = 3 / 10"
  by (rule real_sqrt_unique) (simp_all add: power2_eq_square)

lemma sqrt_nine_four_hundredths: "sqrt (9 / 400) = 3 / 20"
  by (rule real_sqrt_unique) (simp_all add: power2_eq_square)

lemma getPropagatedError_early_return:
  assumes k: "k < length (floatParsFinal fr)"
    and name: "fitName (floatParsFinal fr ! k) = pnName this"
    and dist: "distinct (map fitName (floatParsFinal fr))"
    and ok: "\<forall>i<k. \<forall>v. find (\<lambda>v. rvName v = fitName (floatParsFinal fr ! i))
                          (allParamsInAbsReal this) = Some v
               \<longrightarrow> zeroError (floatParsFinal fr ! i)
                   \<or> \<not> diverged (paramValues s) v (floatParsFinal fr ! i)"
  shows "getPropagatedError this fr s = (Inr (fitError (floatParsFinal fr ! k)), s)"
proof -
  let ?fps = "floatParsFinal fr"
  have split: "?fps = take k ?fps @ ?fps ! k # drop (Suc k) ?fps"
    using k by (rule id_take_nth_drop)
  have a: "\<forall>q\<in>set (take k ?fps). fitName q \<noteq> pnName this"
  proof
    fix q assume "q \<in> set (take k ?fps)"
    then obtain i where i: "i < k" and q: "q = ?fps ! i"
      using k by (auto simp: in_set_conv_nth)
    from dist i k have "fitName (?fps ! i) \<noteq> fitName (?fps ! k)"
      by (simp add: distinct_conv_nth)
    with q name show "fitName q \<noteq> pnName this" by simp
  qed
  have b: "\<forall>q\<in>set (take k ?fps). \<forall>v. find (\<lambda>v. rvName v = fitName q) (allParamsInAbsReal this) = Some v
            \<longrightarrow> zeroError q \<or> \<not> diverged (paramValues s) v q"
  proof
    fix q assume "q \<in> set (take k ?fps)"
    then obtain i where i: "i < k" and q: "q = ?fps ! i"
      using k by (auto simp: in_set_conv_nth)
    with ok show "\<forall>v. find (\<lambda>v. rvName v = fitName q) (allParamsInAbsReal this) = Some v
            \<longrightarrow> zeroError q \<or> \<not> diverged (paramValues s) v q" by simp
  qed
  have "scanFitParams this (paramValues s) (take k ?fps @ ?fps ! k # drop (Suc k) ?fps) []
          = EarlyReturn (fitError (?fps ! k))"
    using name a b by (rule scanFitParams_reaches_self)
  with split have "scanFitParams this (paramValues s) ?fps [] = EarlyReturn (fitError (?fps ! k))"
    by simp
  then show ?thesis by (simp add: getPropagatedError_def)
qed

text \<open>
  Claim C10. Let the node be itself one of the floated parameters of the fit result: its
  name is the name of the floated parameter at position \<open>k\<close> of the fit result, whose
  parameters have distinct names, and, being a variable, it has no parameter but itself
  (\<open>getParameters\<close> yields nothing, or the node alone). Then \<open>getPropagatedError\<close> returns
  the fitted error of that parameter and leaves the state as it is: no variable is
  varied, the node is not evaluated and the covariance matrix is not reduced.
\<close>

theorem getPropagatedError_of_floated_parameter:
  assumes k: "k < length (floatParsFinal fr)"
    and name: "fitName (floatParsFinal fr ! k) = pnName this"
    and dist: "distinct (map fitName (floatParsFinal fr))"
    and leaf: "\<forall>v\<in>set (allParamsInAbsReal this). rvName v = pnName this"
  shows "getPropagatedError this fr s = (Inr (fitError (floatParsFinal fr ! k)), s)"
proof (rule getPropagatedError_early_return[OF k name dist], intro allI impI)
  fix i v
  assume i: "i < k"
    and f: "find (\<lambda>v. rvName v = fitName (floatParsFinal fr ! i)) (allParamsInAbsReal this) = Some v"
  from f have "v \<in> set (allParamsInAbsReal this)" and "rvName v = fitName (floatParsFinal fr ! i)"
    by (auto simp: find_Some_iff)
  with leaf have "fitName (floatParsFinal fr ! i) = pnName this" by auto
  moreover from dist i k have "fitName (floatParsFinal fr ! i) \<noteq> fitName (floatParsFinal fr ! k)"
    by (simp add: distinct_conv_nth)
  ultimately have False using name by simp
  then show "zeroError (floatParsFinal fr ! i)
             \<or> \<not> diverged (paramValues s) v (floatParsFinal fr ! i)" ..
qed

theorem getPropagatedError_of_floated_parameter_witness:
  "getPropagatedError leaf_b fit_ab values_all_5 = (Inr (Fin (3 / 10)), values_all_5)"
  using getPropagatedError_of_floated_parameter[of 1 fit_ab leaf_b values_all_5]
  by (simp add: fit_ab_def leaf_b_def)

text \<open>
  Within the legal range of a parameter the two notions of clipping agree: a value below
  the maximum that is moved down stays below it, and a value above the minimum that is
  moved up stays above it.
\<close>

lemma plus_clipToRange:
  assumes "dle (rvMin rrv) c"
  shows "(if dgt (dadd c (dsqrt v)) (rvMax rrv) then rvMax rrv else dadd c (dsqrt v))
           = clipToRange rrv (dadd c (dsqrt v))"
proof -
  have "\<not> dgt (rvMin rrv) (dadd c (dsqrt v))"
  proof (cases "rvMin rrv"; cases c; cases v)
    fix m x a
    assume e: "rvMin rrv = Fin m" "c = Fin x" "v = Fin a"
    show ?thesis
    proof (cases "a < 0")
      case True
      then show ?thesis by (simp add: e)
    next
      case False
      then have "0 \<le> sqrt a" by simp
      moreover have "m \<le> x" using assms by (simp add: e)
      ultimately have "\<not> x + sqrt a < m" by linarith
      with False show ?thesis by (simp add: e)
    qed
  qed (use assms in auto)
  then show ?thesis by (simp add: clipToRange_def)
qed

lemma minus_clipToRange:
  assumes "dle c (rvMax rrv)"
  shows "(if dgt (rvMin rrv) (dsub c (dsqrt v)) then rvMin rrv else dsub c (dsqrt v))
           = clipToRange rrv (dsub c (dsqrt v))"
proof -
  have "\<not> dgt (dsub c (dsqrt v)) (rvMax rrv)"
  proof (cases "rvMax rrv"; cases c; cases v)
    fix m x a
    assume e: "rvMax rrv = Fin m" "c = Fin x" "v = Fin a"
    show ?thesis
    proof (cases "a < 0")
      case True
      then show ?thesis by (simp add: e dsub_def)
    next
      case False
      then have "0 \<le> sqrt a" by simp
      moreover have "x \<le> m" using assms by (simp add: e)
      ultimately have "\<not> m < x - sqrt a" by linarith
      with False show ?thesis by (simp add: e dsub_def)
    qed
  qed (use assms in \<open>auto simp: dsub_def\<close>)
  then show ?thesis by (simp add: clipToRange_def)
qed

lemma spec_F_in_range:
  assumes "\<forall>v\<in>set pl. dle (rvMin v) (vals (rvName v)) \<and> dle (vals (rvName v)) (rvMax v)"
  shows "spec_F this V vals pl = halfDifferences this V vals pl"
  unfolding spec_F_def halfDifferences_def
proof (rule map_cong[OF refl])
  fix i assume "i \<in> set [0..<length pl]"
  then have "pl ! i \<in> set pl" by simp
  with assms have r: "dle (rvMin (pl ! i)) (vals (rvName (pl ! i)))"
    "dle (vals (rvName (pl ! i))) (rvMax (pl ! i))" by auto
  have "spec_plus this V vals i (pl ! i) = plusAt this V vals i (pl ! i)"
    unfolding spec_plus_def plusAt_def plus_clipToRange[OF r(1)] ..
  moreover have "spec_minus this V vals i (pl ! i) = minusAt this V vals i (pl ! i)"
    unfolding spec_minus_def minusAt_def minus_clipToRange[OF r(2)] ..
  ultimately show
    "ddiv (dsub (spec_plus this V vals i (pl ! i)) (spec_minus this V vals i (pl ! i))) (Fin 2)
     = ddiv (dsub (plusAt this V vals i (pl ! i)) (minusAt this V vals i (pl ! i))) (Fin 2)"
    by simp
qed

text \<open>
  The result of \<open>getPropagatedError\<close> when the scan neither returns early nor throws: the
  square root of the quadratic form of the half differences, taken at the values where
  the loop evaluates the node, and of the correlations.
\<close>

lemma getPropagatedError_quadratic:
  assumes notself: "\<forall>p\<in>set (floatParsFinal fr). fitName p \<noteq> pnName this"
    and nodiv: "\<forall>p\<in>set (floatParsFinal fr). \<forall>v. \<not> zeroError p
            \<and> find (\<lambda>v. rvName v = fitName p) (allParamsInAbsReal this) = Some v
            \<longrightarrow> \<not> diverged (paramValues s) v p"
    and sym: "\<forall>i j. chosenCovariance fr (relevantParams this (floatParsFinal fr)) i j
                 = chosenCovariance fr (relevantParams this (floatParsFinal fr)) j i"
  shows "fst (getPropagatedError this fr s) =
           Inr (dsqrt (quadraticForm
                  (halfDifferences this
                     (chosenCovariance fr (relevantParams this (floatParsFinal fr)))
                     (paramValues s) (relevantParams this (floatParsFinal fr)))
                  (spec_C (chosenCovariance fr (relevantParams this (floatParsFinal fr))))))
       \<and> paramValues (snd (getPropagatedError this fr s)) = paramValues s"
proof -
  let ?pl = "relevantParams this (floatParsFinal fr)"
  let ?V = "chosenCovariance fr ?pl"
  let ?n = "length ?pl"
  have scan: "scanFitParams this (paramValues s) (floatParsFinal fr) [] = ParamList ?pl"
    using scanFitParams_params[OF notself nodiv, of "[]"] by simp
  let ?s0 = "if ?n = length (floatParsFinal fr) then s else s\<lparr>covReductions := covReductions s + 1\<rparr>"
  have vs0: "paramValues ?s0 = paramValues s" by simp
  let ?P = "map (\<lambda>(i, rrv). plusAt this ?V (paramValues s) i rrv) (List.enumerate 0 ?pl)"
  let ?M = "map (\<lambda>(i, rrv). minusAt this ?V (paramValues s) i rrv) (List.enumerate 0 ?pl)"
  from variations_closed[of this ?V ?pl 0 "[]" "[]" ?s0] obtain s1 where
    var: "variations this ?V ?pl 0 ([], [], ?s0) = (?P, ?M, s1)"
    and v1: "paramValues s1 = paramValues s"
    by (auto simp: vs0)
  let ?F = "map (\<lambda>j. dmul (dsub (?P ! j) (?M ! j)) (Fin (1 / 2))) [0..<length ?P]"
  have F: "?F = halfDifferences this ?V (paramValues s) ?pl"
    unfolding halfDifferences_def
    by (rule nth_equalityI) (simp_all add: dmul_half nth_enumerate_eq)
  have lenF: "length ?F = ?n" by simp
  have Q: "quadraticForm ?F (correlationMatrix ?V ?n) = quadraticForm ?F (spec_C ?V)"
  proof (rule quadraticForm_cong, intro allI impI)
    fix i j assume "i < length ?F" "j < length ?F"
    then have "i < ?n" "j < ?n" by simp_all
    from correlationMatrix_apply[OF sym this]
    show "correlationMatrix ?V ?n (i, j) = spec_C ?V (i, j)"
      by (simp add: spec_C_def corrEntry_def)
  qed
  have res: "getPropagatedError this fr s =
          (Inr (dsqrt (quadraticForm ?F (correlationMatrix ?V ?n))), snd (getVal this s1))"
    unfolding getPropagatedError_def scan
    by (cases "?n = length (floatParsFinal fr)")
       (use var in \<open>simp_all add: chosenCovariance_def Let_def del: variations.simps\<close>)
  have Q': "quadraticForm (halfDifferences this ?V (paramValues s) ?pl) (correlationMatrix ?V ?n)
          = quadraticForm (halfDifferences this ?V (paramValues s) ?pl) (spec_C ?V)"
    using Q unfolding F .
  show ?thesis
    unfolding res F Q' by (simp add: getVal_def v1)
qed

text \<open>
  Claim C4, as the code has it. Let the node not be one of the floated parameters, let no
  floated parameter of the node with a non-zero error have a current value away from the
  fit result, and let the covariance matrix be symmetric (as its type \<open>TMatrixDSym\<close> has
  it). Then \<open>getPropagatedError\<close> returns the square root of \<open>F\<close> times \<open>C\<close> times \<open>F\<close> for
  the floated parameters of the node with a non-zero error, where \<open>C\<close> is as in the linear
  formula and \<open>F\<close> is the vector of half differences with the upper value cut at the
  parameter's maximum and the lower value at its minimum. When the current value of each
  of these parameters lies in its legal range, as the value of a variable does, this is
  the linear formula with each value clipped to the legal range. Every variable has its
  value of before the call. Arithmetic on finite doubles is exact in the model.
\<close>

theorem getPropagatedError_linear_formula:
  assumes notself: "\<forall>p\<in>set (floatParsFinal fr). fitName p \<noteq> pnName this"
    and nodiv: "\<forall>p\<in>set (floatParsFinal fr). \<forall>v. \<not> zeroError p
            \<and> find (\<lambda>v. rvName v = fitName p) (allParamsInAbsReal this) = Some v
            \<longrightarrow> \<not> diverged (paramValues s) v p"
    and sym: "\<forall>i j. chosenCovariance fr (relevantParams this (floatParsFinal fr)) i j
                 = chosenCovariance fr (relevantParams this (floatParsFinal fr)) j i"
  shows "fst (getPropagatedError this fr s) =
           Inr (dsqrt (quadraticForm
                  (halfDifferences this
                     (chosenCovariance fr (relevantParams this (floatParsFinal fr)))
                     (paramValues s) (relevantParams this (floatParsFinal fr)))
                  (spec_C (chosenCovariance fr (relevantParams this (floatParsFinal fr))))))
       \<and> ((\<forall>v\<in>set (relevantParams this (floatParsFinal fr)).
              dle (rvMin v) (paramValues s (rvName v)) \<and> dle (paramValues s (rvName v)) (rvMax v))
            \<longrightarrow> fst (getPropagatedError this fr s) =
                  Inr (spec_propagatedError this
                         (chosenCovariance fr (relevantParams this (floatParsFinal fr)))
                         (paramValues s) (relevantParams this (floatParsFinal fr))))
       \<and> paramValues (snd (getPropagatedError this fr s)) = paramValues s"
proof -
  note q = getPropagatedError_quadratic[OF notself nodiv sym]
  have "(\<forall>v\<in>set (relevantParams this (floatParsFinal fr)).
              dle (rvMin v) (paramValues s (rvName v)) \<and> dle (paramValues s (rvName v)) (rvMax v))
            \<longrightarrow> fst (getPropagatedError this fr s) =
                  Inr (spec_propagatedError this
                         (chosenCovariance fr (relevantParams this (floatParsFinal fr)))
                         (paramValues s) (relevantParams this (floatParsFinal fr)))"
  proof
    assume "\<forall>v\<in>set (relevantParams this (floatParsFinal fr)).
              dle (rvMin v) (paramValues s (rvName v)) \<and> dle (paramValues s (rvName v)) (rvMax v)"
    from spec_F_in_range[OF this] q show
      "fst (getPropagatedError this fr s) =
         Inr (spec_propagatedError this
                (chosenCovariance fr (relevantParams this (floatParsFinal fr)))
                (paramValues s) (relevantParams this (floatParsFinal fr)))"
      by (simp add: spec_propagatedError_def)
  qed
  with q show ?thesis by blast
qed

text \<open>
  Two runs. For \<open>f = a * x\<close> with \<open>a = 2 \<plusminus> 0.1\<close> in the range from 0 to 10 and \<open>x\<close> at 3
  the result is 0.3. With the range of \<open>a\<close> from 1.95 to 2.05 both variations are clipped,
  to 2.05 and to 1.95, and the result is 0.15.
\<close>

theorem getPropagatedError_linear_formula_witness:
  "fst (getPropagatedError node_ax fit_a values_a2_x3) = Inr (Fin (3 / 10))
   \<and> paramValues (snd (getPropagatedError node_ax fit_a values_a2_x3)) = paramValues values_a2_x3
   \<and> fst (getPropagatedError node_ax_narrow fit_a values_a2_x3) = Inr (Fin (3 / 20))
   \<and> paramValues (snd (getPropagatedError node_ax_narrow fit_a values_a2_x3))
       = paramValues values_a2_x3"
proof -
  have notself: "\<forall>p\<in>set (floatParsFinal fit_a). fitName p \<noteq> pnName node_ax"
    by (simp add: fit_a_def node_ax_def)
  have nodiv: "\<forall>p\<in>set (floatParsFinal fit_a). \<forall>v. \<not> zeroError p
            \<and> find (\<lambda>v. rvName v = fitName p) (allParamsInAbsReal node_ax) = Some v
            \<longrightarrow> \<not> diverged (paramValues values_a2_x3) v p"
    by (simp add: fit_a_def node_ax_def var_a_def values_a2_x3_def diverged_def dsub_def)
  have rel: "relevantParams node_ax (floatParsFinal fit_a) = [var_a]"
    by (simp add: relevantParams_def List.map_filter_simps fit_a_def node_ax_def var_a_def
        zeroError_def epsilon_def)
  have sym: "\<forall>i j. chosenCovariance fit_a (relevantParams node_ax (floatParsFinal fit_a)) i j
                 = chosenCovariance fit_a (relevantParams node_ax (floatParsFinal fit_a)) j i"
    by (simp add: rel chosenCovariance_def fit_a_def)
  have inr: "\<forall>v\<in>set (relevantParams node_ax (floatParsFinal fit_a)).
               dle (rvMin v) (paramValues values_a2_x3 (rvName v))
               \<and> dle (paramValues values_a2_x3 (rvName v)) (rvMax v)"
    by (simp add: rel var_a_def values_a2_x3_def)
  have val: "spec_propagatedError node_ax
                  (chosenCovariance fit_a (relevantParams node_ax (floatParsFinal fit_a)))
                  (paramValues values_a2_x3) (relevantParams node_ax (floatParsFinal fit_a))
             = Fin (3 / 10)"
    unfolding rel
    by (simp add: chosenCovariance_def fit_a_def spec_propagatedError_def spec_F_def spec_C_def
        quadraticForm_def dsum_def spec_plus_def spec_minus_def clipToRange_def node_ax_def
        var_a_def values_a2_x3_def dsub_def sqrt_hundredth sqrt_ten_thousandth
        sqrt_nine_hundredths)
  have notself': "\<forall>p\<in>set (floatParsFinal fit_a). fitName p \<noteq> pnName node_ax_narrow"
    by (simp add: fit_a_def node_ax_narrow_def)
  have nodiv': "\<forall>p\<in>set (floatParsFinal fit_a). \<forall>v. \<not> zeroError p
            \<and> find (\<lambda>v. rvName v = fitName p) (allParamsInAbsReal node_ax_narrow) = Some v
            \<longrightarrow> \<not> diverged (paramValues values_a2_x3) v p"
    by (simp add: fit_a_def node_ax_narrow_def var_a_narrow_def values_a2_x3_def diverged_def
        dsub_def)
  have rel': "relevantParams node_ax_narrow (floatParsFinal fit_a) = [var_a_narrow]"
    by (simp add: relevantParams_def List.map_filter_simps fit_a_def node_ax_narrow_def
        var_a_narrow_def zeroError_def epsilon_def)
  have sym': "\<forall>i j. chosenCovariance fit_a (relevantParams node_ax_narrow (floatParsFinal fit_a)) i j
                 = chosenCovariance fit_a (relevantParams node_ax_narrow (floatParsFinal fit_a)) j i"
    by (simp add: rel' chosenCovariance_def fit_a_def)
  have inr': "\<forall>v\<in>set (relevantParams node_ax_narrow (floatParsFinal fit_a)).
               dle (rvMin v) (paramValues values_a2_x3 (rvName v))
               \<and> dle (paramValues values_a2_x3 (rvName v)) (rvMax v)"
    by (simp add: rel' var_a_narrow_def values_a2_x3_def)
  have val': "spec_propagatedError node_ax_narrow
                  (chosenCovariance fit_a (relevantParams node_ax_narrow (floatParsFinal fit_a)))
                  (paramValues values_a2_x3) (relevantParams node_ax_narrow (floatParsFinal fit_a))
             = Fin (3 / 20)"
    unfolding rel'
    by (simp add: chosenCovariance_def fit_a_def spec_propagatedError_def spec_F_def spec_C_def
        quadraticForm_def dsum_def spec_plus_def spec_minus_def clipToRange_def
        node_ax_narrow_def var_a_narrow_def values_a2_x3_def dsub_def sqrt_hundredth
        sqrt_ten_thousandth sqrt_nine_four_hundredths)
  note wide = getPropagatedError_linear_formula[OF notself nodiv sym]
  note narrow = getPropagatedError_linear_formula[OF notself' nodiv' sym']
  from wide inr have a: "fst (getPropagatedError node_ax fit_a values_a2_x3) = Inr (Fin (3 / 10))"
    unfolding val by blast
  from wide have
    b: "paramValues (snd (getPropagatedError node_ax fit_a values_a2_x3)) = paramValues values_a2_x3"
    by blast
  from narrow inr' have
    c: "fst (getPropagatedError node_ax_narrow fit_a values_a2_x3) = Inr (Fin (3 / 20))"
    unfolding val' by blast
  from narrow have
    d: "paramValues (snd (getPropagatedError node_ax_narrow fit_a values_a2_x3))
          = paramValues values_a2_x3"
    by blast
  from a b c d show ?thesis by blast
qed

text \<open>
  Claim C4 as stated fails for a node that is itself a floated parameter: for the
  variable \<open>b\<close>, floated with error 0.3, no floated parameter is a parameter of the node,
  so the preconditions hold and the linear formula gives 0, whereas \<open>getPropagatedError\<close>
  returns the fitted error 0.3.
\<close>

theorem getPropagatedError_of_parameter_is_not_formula:
  "fst (getPropagatedError leaf_b fit_ab values_all_5) = Inr (Fin (3 / 10))
   \<and> relevantParams leaf_b (floatParsFinal fit_ab) = []
   \<and> spec_propagatedError leaf_b
       (chosenCovariance fit_ab (relevantParams leaf_b (floatParsFinal fit_ab)))
       (paramValues values_all_5) (relevantParams leaf_b (floatParsFinal fit_ab)) = Fin 0"
  by (simp add: getPropagatedError_def relevantParams_def List.map_filter_simps fit_ab_def
      leaf_b_def zeroError_def epsilon_def spec_propagatedError_def spec_F_def quadraticForm_def
      dsum_def Let_def)

end
